theory Spec2Isabelle
  imports Main
begin

section \<open>Python string operations used by the handler\<close>

text \<open>
  Python strings are modelled as \<^typ>\<open>string\<close> (lists of characters). The
  library methods the handler calls are written out so that the code can be followed
  call by call: \<^verbatim>\<open>s.startswith(p)\<close>, \<^verbatim>\<open>s.endswith(p)\<close>,
  \<^verbatim>\<open>sub in s\<close>, \<^verbatim>\<open>s.split(sep)\<close>, \<^verbatim>\<open>s.replace(old, new)\<close>,
  \<^verbatim>\<open>s.lower()\<close> and \<^verbatim>\<open>s.strip()\<close>. A character stands for its code point,
  so the strings of the model are those over the code points below 256.
\<close>

fun startswith :: "string \<Rightarrow> string \<Rightarrow> bool" where
  "startswith s [] = True"
| "startswith [] (p # ps) = False"
| "startswith (c # cs) (p # ps) = (c = p \<and> startswith cs ps)"

definition endswith :: "string \<Rightarrow> string \<Rightarrow> bool" where
  "endswith s p = startswith (rev s) (rev p)"

text \<open>\<^verbatim>\<open>sub in s\<close>: the substring test.\<close>

fun contains :: "string \<Rightarrow> string \<Rightarrow> bool" where
  "contains sub [] = (sub = [])"
| "contains sub (c # cs) = (startswith (c # cs) sub \<or> contains sub cs)"

text \<open>
  \<^verbatim>\<open>s.split(sep)\<close> for a non-empty separator: the pieces between the occurrences
  of \<open>sep\<close>, found from the left, one after the end of the other. The result is never
  empty, so \<^verbatim>\<open>[0]\<close> and \<^verbatim>\<open>[-1]\<close> on it are \<open>hd\<close> and \<open>last\<close>.
  (Python raises ValueError on an empty separator; every call of the handler passes a
  literal, non-empty one.)
\<close>

fun py_split :: "string \<Rightarrow> string \<Rightarrow> string list" where
  "py_split sep [] = [[]]"
| "py_split sep (c # cs) =
     (if sep \<noteq> [] \<and> startswith (c # cs) sep
      then [] # py_split sep (drop (length sep) (c # cs))
      else (case py_split sep cs of
              [] \<Rightarrow> [[c]]
            | p # ps \<Rightarrow> (c # p) # ps))"

text \<open>\<^verbatim>\<open>s.replace(old, new)\<close> for a non-empty \<open>old\<close>: every occurrence, from the left.\<close>

fun replace :: "string \<Rightarrow> string \<Rightarrow> string \<Rightarrow> string" where
  "replace old new [] = []"
| "replace old new (c # cs) =
     (if old \<noteq> [] \<and> startswith (c # cs) old
      then new @ replace old new (drop (length old) (c # cs))
      else c # replace old new cs)"

text \<open>
  \<^verbatim>\<open>s.lower()\<close>: the capital letters \<open>A\<close> to \<open>Z\<close> and those of the code
  points 192 to 222 (but the multiplication sign, 215) have a lower-case form, 32 higher.
\<close>

definition upper_letters :: string where
  "upper_letters =
     ''ABCDEFGHIJKLMNOPQRSTUVWXYZ'' @
        [CHR 0xC0, CHR 0xC1, CHR 0xC2, CHR 0xC3, CHR 0xC4, CHR 0xC5, CHR 0xC6, CHR 0xC7,
         CHR 0xC8, CHR 0xC9, CHR 0xCA, CHR 0xCB, CHR 0xCC, CHR 0xCD, CHR 0xCE, CHR 0xCF,
         CHR 0xD0, CHR 0xD1, CHR 0xD2, CHR 0xD3, CHR 0xD4, CHR 0xD5, CHR 0xD6, CHR 0xD8,
         CHR 0xD9, CHR 0xDA, CHR 0xDB, CHR 0xDC, CHR 0xDD, CHR 0xDE]"

definition lower_letters :: string where
  "lower_letters =
     ''abcdefghijklmnopqrstuvwxyz'' @
        [CHR 0xE0, CHR 0xE1, CHR 0xE2, CHR 0xE3, CHR 0xE4, CHR 0xE5, CHR 0xE6, CHR 0xE7,
         CHR 0xE8, CHR 0xE9, CHR 0xEA, CHR 0xEB, CHR 0xEC, CHR 0xED, CHR 0xEE, CHR 0xEF,
         CHR 0xF0, CHR 0xF1, CHR 0xF2, CHR 0xF3, CHR 0xF4, CHR 0xF5, CHR 0xF6, CHR 0xF8,
         CHR 0xF9, CHR 0xFA, CHR 0xFB, CHR 0xFC, CHR 0xFD, CHR 0xFE]"

definition lower_char :: "char \<Rightarrow> char" where
  "lower_char c =
     (case map_of (zip upper_letters lower_letters) c of
        Some l \<Rightarrow> l
      | None \<Rightarrow> c)"

definition lower :: "string \<Rightarrow> string" where
  "lower s = map lower_char s"

text \<open>
  The characters \<^verbatim>\<open>str.isspace\<close> accepts: 9 to 13, 28 to 32, 133 (next line) and 160
  (no-break space).
\<close>

definition is_space :: "char \<Rightarrow> bool" where
  "is_space c = (c \<in> set [CHR 0x09, CHR 0x0A, CHR 0x0B, CHR 0x0C, CHR 0x0D,
                           CHR 0x1C, CHR 0x1D, CHR 0x1E, CHR 0x1F, CHR '' '',
                           CHR 0x85, CHR 0xA0])"

definition strip :: "string \<Rightarrow> string" where
  "strip s = rev (dropWhile is_space (rev (dropWhile is_space s)))"

text \<open>\<^verbatim>\<open>str(n)\<close> for an integer, as the f-strings of the handler format a status code.\<close>

definition digit_char :: "nat \<Rightarrow> char" where
  "digit_char d = ''0123456789'' ! (d mod 10)"

function str_nat :: "nat \<Rightarrow> string" where
  "str_nat n = (if n < 10 then [digit_char n] else str_nat (n div 10) @ [digit_char (n mod 10)])"
  by pat_completeness auto
termination
  by (relation "measure id") auto

definition str_int :: "int \<Rightarrow> string" where
  "str_int i = (if i < 0 then ''-'' @ str_nat (nat (- i)) else str_nat (nat i))"

text \<open>
  \<^verbatim>\<open>os.path.join(a, b)\<close> with two arguments, on a POSIX system: an absolute \<open>b\<close>
  replaces \<open>a\<close>; otherwise the two are joined by one slash.
\<close>

definition path_join :: "string \<Rightarrow> string \<Rightarrow> string" where
  "path_join a b =
     (if startswith b ''/'' then b
      else if a = [] \<or> endswith a ''/'' then a @ b
      else a @ ''/'' @ b)"

section \<open>The folder or file identifier of a URL\<close>

text \<open>\<^verbatim>\<open>GoogleDriveHandler.extract_folder_id\<close>.\<close>

definition extract_folder_id :: "string \<Rightarrow> string" where
  "extract_folder_id folder_url =
     (if contains ''/folders/'' folder_url
      then hd (py_split ''?'' (last (py_split ''/folders/'' folder_url)))
      else if contains ''id='' folder_url
      then hd (py_split ''&'' (last (py_split ''id='' folder_url)))
      else folder_url)"

section \<open>Data model and collaborators\<close>

text \<open>
  Every exception the handler raises itself is a plain \<^verbatim>\<open>Exception(message)\<close>, and
  every handler catches \<^verbatim>\<open>Exception\<close>; \<open>message\<close> is what \<^verbatim>\<open>str(e)\<close> returns.
\<close>

datatype exn = Exception (message: string)

text \<open>A \<^verbatim>\<open>requests\<close> response, fully received: status, decoded text, final URL, body.\<close>

record response =
  status_code :: int
  r_text :: string
  r_url :: string
  r_content :: string

text \<open>
  The regular expressions of the handler, by the place that uses them. The regular
  expression engine is a collaborator: the model takes what \<^verbatim>\<open>re.findall\<close> and
  \<^verbatim>\<open>re.search\<close> return as given and follows what the code does with it.
  \<^item> \<open>File_link\<close>: \<^verbatim>\<open>/file/d/([a-zA-Z0-9_-]+)\<close>
  \<^item> \<open>Id_param\<close>: \<^verbatim>\<open>id=([a-zA-Z0-9_-]+)\<close>
  \<^item> \<open>Folder_view\<close>: \<^verbatim>\<open>folders/([a-zA-Z0-9_-]+)/view[^"]*id=([a-zA-Z0-9_-]+)\<close>
  \<^item> \<open>Data_item_id\<close>: the \<^verbatim>\<open>data-item-id\<close> attribute
  \<^item> \<open>Script_block\<close>: the body of a \<^verbatim>\<open>script\<close> element (DOTALL)
  \<^item> \<open>Script_id\<close>: a quoted run of 20 or more identifier characters
  \<^item> \<open>Title_tag\<close>, \<open>Og_title\<close>, \<open>Json_ld_name\<close>: the three sources of a file name
  \<^item> \<open>Confirm_href\<close>: the confirmed-download link of the interstitial page
  \<^item> \<open>Pdf_ref\<close>: \<^verbatim>\<open>([^/]+\.pdf)\<close> (IGNORECASE)
\<close>

datatype pattern =
  File_link | Id_param | Folder_view | Data_item_id | Script_block | Script_id
  | Title_tag | Og_title | Json_ld_name | Confirm_href | Pdf_ref

text \<open>
  \<^verbatim>\<open>re.findall\<close> returns a list of strings for a pattern with one group and a list
  of tuples for a pattern with several.
\<close>

datatype matches = Strings "string list" | Tuples "string list list"

text \<open>
  The world outside the process. \<open>requests_get\<close> is keyed by the URL (the headers and
  time-outs of the calls are constants); \<open>re_search\<close> gives \<^verbatim>\<open>group(1)\<close> of the
  first match; \<open>open_wb\<close> and \<open>fwrite\<close> give the exception that opening a file for
  writing, or writing one chunk to it, raises (\<open>None\<close> when it succeeds). Each is a
  function of its arguments: within one run, the same question gets the same answer.
\<close>

record world =
  requests_get :: "string \<Rightarrow> exn + response"
  re_findall :: "pattern \<Rightarrow> string \<Rightarrow> matches"
  re_search :: "pattern \<Rightarrow> string \<Rightarrow> string option"
  open_wb :: "string \<Rightarrow> exn option"
  fwrite :: "string \<Rightarrow> string \<Rightarrow> exn option"

text \<open>
  One entry of the provider's file listing. The listing asks for the fields id, name,
  mimeType, size and createdTime; the code reads the first three with \<^verbatim>\<open>item[...]\<close>
  and the last two with \<^verbatim>\<open>item.get(...)\<close>, so those two may be absent.
\<close>

record item =
  item_id :: string
  item_name :: string
  item_mimeType :: string
  item_size :: "string option"
  item_createdTime :: "string option"

datatype media_request = Export_media string string | Get_media string

text \<open>
  The authenticated session (\<^verbatim>\<open>self.service\<close>): \<open>files_list q\<close> is
  \<^verbatim>\<open>files().list(q=q, ...).execute().get('files', [])\<close>, \<open>files_get\<close> gives the
  \<^verbatim>\<open>mimeType\<close> of \<^verbatim>\<open>files().get(fileId=...).execute()\<close>, and \<open>next_chunk req i\<close>
  is the \<open>i\<close>-th call of \<^verbatim>\<open>MediaIoBaseDownload.next_chunk\<close> on the request: it
  raises or returns the \<^verbatim>\<open>done\<close> flag.
\<close>

record service =
  files_list :: "string \<Rightarrow> exn + item list"
  files_get :: "string \<Rightarrow> exn + string"
  next_chunk :: "media_request \<Rightarrow> nat \<Rightarrow> exn + bool"

record handler =
  service :: "service option"
  temp_dir :: string

datatype size_val = Int_size int | Str_size string

text \<open>
  The dictionaries the listings return; \<open>fr_path\<close> is the key \<^verbatim>\<open>'path'\<close>,
  present only in a recursive listing. A download result is the same dictionary with
  \<^verbatim>\<open>'local_path'\<close> added.
\<close>

record file_record =
  fr_id :: string
  fr_name :: string
  fr_mimeType :: string
  fr_size :: size_val
  fr_createdTime :: "string option"
  fr_path :: "string option"

record download_result = file_record +
  local_path :: string

text \<open>
  What the handler does to the outside world, in order. The progress messages it prints
  are left out, but for the one warning of the last scraping pass.
\<close>

datatype event =
  Http_get string
  | Pdf_warning
  | Files_list string
  | Files_get string
  | Media_request media_request
  | Next_chunk media_request nat
  | Open_wb string
  | Fwrite string string

section \<open>Listing a public folder\<close>

definition ext_map :: "(string \<times> string list) list" where
  "ext_map =
     [(''application/pdf'', [''.pdf'']),
      (''application/vnd.google-apps.document'', [''.gdoc'', ''.doc'', ''.docx'']),
      (''image/jpeg'', [''.jpg'', ''.jpeg'']),
      (''image/png'', [''.png''])]"

fun allowed_extensions_of :: "string list \<Rightarrow> string list" where
  "allowed_extensions_of [] = []"
| "allowed_extensions_of (mime # file_types) =
     (case map_of ext_map mime of
        Some exts \<Rightarrow> exts @ allowed_extensions_of file_types
      | None \<Rightarrow> allowed_extensions_of file_types)"

text \<open>
  \<^verbatim>\<open>found_file_ids\<close> is a Python set. It is kept as a duplicate-free list in order of
  insertion; Python fixes no order of iteration, and no result below depends on one.
\<close>

definition set_add :: "string \<Rightarrow> string list \<Rightarrow> string list" where
  "set_add x found = (if x \<in> set found then found else found @ [x])"

definition set_update :: "string list \<Rightarrow> string list \<Rightarrow> string list" where
  "set_update xs found = fold set_add xs found"

text \<open>
  A one-group pattern yields strings. (The tuple case is there for totality; the engine
  never produces it for these patterns.)
\<close>

fun as_strings :: "matches \<Rightarrow> string list" where
  "as_strings (Strings ms) = ms"
| "as_strings (Tuples ts) = []"

definition file_link_patterns :: "pattern list" where
  "file_link_patterns = [File_link, Id_param, Folder_view]"

text \<open>\<^verbatim>\<open>match[1] if len(match) > 1 else match[0]\<close>, on a tuple.\<close>

definition tuple_pick :: "string list \<Rightarrow> exn + string" where
  "tuple_pick m =
     (if length m > 1 then Inr (m ! 1)
      else if m \<noteq> [] then Inr (m ! 0)
      else Inl (Exception ''tuple index out of range''))"

fun add_tuples :: "string list list \<Rightarrow> string list \<Rightarrow> exn + string list" where
  "add_tuples [] found = Inr found"
| "add_tuples (m # ms) found =
     (case tuple_pick m of
        Inl e \<Rightarrow> Inl e
      | Inr x \<Rightarrow> add_tuples ms (set_add x found))"

fun scan_link_patterns ::
  "world \<Rightarrow> string \<Rightarrow> pattern list \<Rightarrow> string list \<Rightarrow> exn + string list" where
  "scan_link_patterns w html [] found = Inr found"
| "scan_link_patterns w html (p # ps) found =
     (case re_findall w p html of
        Strings ms \<Rightarrow> scan_link_patterns w html ps (set_update ms found)
      | Tuples ts \<Rightarrow>
          (case add_tuples ts found of
             Inl e \<Rightarrow> Inl e
           | Inr found' \<Rightarrow> scan_link_patterns w html ps found'))"

text \<open>The four extraction methods of the folder page, in the order of the code.\<close>

definition extract_candidate_ids :: "world \<Rightarrow> string \<Rightarrow> exn + string list" where
  "extract_candidate_ids w html =
     (case scan_link_patterns w html file_link_patterns [] of
        Inl e \<Rightarrow> Inl e
      | Inr found1 \<Rightarrow>
          (let found2 = set_update (as_strings (re_findall w Data_item_id html)) found1;
               scripts = as_strings (re_findall w Script_block html)
           in Inr (fold (\<lambda>script found.
                           set_update (as_strings (re_findall w Script_id script)) found)
                        scripts found2)))"

text \<open>\<^verbatim>\<open>not filename\<close>: the name is still \<^verbatim>\<open>None\<close>, or empty.\<close>

definition falsy :: "string option \<Rightarrow> bool" where
  "falsy filename = (case filename of None \<Rightarrow> True | Some s \<Rightarrow> s = [])"

definition derive_filename :: "world \<Rightarrow> string \<Rightarrow> string \<Rightarrow> string" where
  "derive_filename w file_id page =
     (let filename1 =
            (case re_search w Title_tag page of
               Some g \<Rightarrow> Some (strip (replace '' - Google Drive'' [] g))
             | None \<Rightarrow> None);
          filename2 =
            (if falsy filename1
             then (case re_search w Og_title page of
                     Some g \<Rightarrow> Some (strip g)
                   | None \<Rightarrow> filename1)
             else filename1);
          filename3 =
            (if falsy filename2
             then (case re_search w Json_ld_name page of
                     Some g \<Rightarrow> Some (strip g)
                   | None \<Rightarrow> filename2)
             else filename2)
      in (case filename3 of
            None \<Rightarrow> ''file_'' @ file_id
          | Some s \<Rightarrow> if s = [] then ''file_'' @ file_id else s))"

definition public_record :: "string \<Rightarrow> string \<Rightarrow> file_record" where
  "public_record file_id filename =
     \<lparr>fr_id = file_id, fr_name = filename,
      fr_mimeType =
        (if endswith (lower filename) ''.pdf'' then ''application/pdf'' else ''unknown''),
      fr_size = Int_size 0, fr_createdTime = None, fr_path = None\<rparr>"

definition file_info_url :: "string \<Rightarrow> string" where
  "file_info_url file_id = ''https://drive.google.com/file/d/'' @ file_id @ ''/view''"

text \<open>
  The loop over the candidates. A request that raises is skipped (\<^verbatim>\<open>continue\<close>);
  nothing else in the body can raise.
\<close>

fun scan_candidates ::
  "world \<Rightarrow> string \<Rightarrow> string list \<Rightarrow> string list \<Rightarrow>
   file_record list \<times> event list \<Rightarrow> file_record list \<times> event list" where
  "scan_candidates w folder_id allowed_extensions [] acc = acc"
| "scan_candidates w folder_id allowed_extensions (file_id # ids) acc =
     (if file_id = folder_id
      then scan_candidates w folder_id allowed_extensions ids acc
      else
        (let trace = snd acc @ [Http_get (file_info_url file_id)] in
         case requests_get w (file_info_url file_id) of
           Inl e \<Rightarrow> scan_candidates w folder_id allowed_extensions ids (fst acc, trace)
         | Inr file_response \<Rightarrow>
             if status_code file_response = 200
             then
               (let filename = derive_filename w file_id (r_text file_response) in
                if list_ex (\<lambda>ext. endswith (lower filename) ext) allowed_extensions
                then scan_candidates w folder_id allowed_extensions ids
                       (fst acc @ [public_record file_id filename], trace)
                else scan_candidates w folder_id allowed_extensions ids (fst acc, trace))
             else scan_candidates w folder_id allowed_extensions ids (fst acc, trace)))"

definition folder_view_url :: "string \<Rightarrow> string" where
  "folder_view_url folder_id = ''https://drive.google.com/drive/folders/'' @ folder_id"

definition api_url :: "string \<Rightarrow> string" where
  "api_url folder_id =
     ''https://drive.google.com/drive/folders/'' @ folder_id @ ''?usp=sharing''"

text \<open>
  The last pass, run when no file was found: its request may raise (swallowed by the
  bare \<^verbatim>\<open>except\<close>), and all it can do is print the warning.
\<close>

definition last_resort :: "world \<Rightarrow> string \<Rightarrow> event list" where
  "last_resort w folder_id =
     Http_get (api_url folder_id) #
     (case requests_get w (api_url folder_id) of
        Inl e \<Rightarrow> []
      | Inr api_response \<Rightarrow>
          if status_code api_response = 200
             \<and> as_strings (re_findall w Pdf_ref (r_text api_response)) \<noteq> []
          then [Pdf_warning] else [])"

definition public_failure :: "exn \<Rightarrow> exn" where
  "public_failure e =
     Exception (''Folder is not publicly accessible or error occurred: '' @ message e)"

definition list_folder_files_public ::
  "world \<Rightarrow> string \<Rightarrow> string list option \<Rightarrow> (exn + file_record list) \<times> event list" where
  "list_folder_files_public w folder_url file_types =
     (let folder_id = extract_folder_id folder_url;
          file_types' = (case file_types of None \<Rightarrow> [''application/pdf''] | Some ts \<Rightarrow> ts);
          allowed_extensions = allowed_extensions_of file_types';
          trace = [Http_get (folder_view_url folder_id)]
      in case requests_get w (folder_view_url folder_id) of
           Inl e \<Rightarrow> (Inl (public_failure e), trace)
         | Inr response \<Rightarrow>
             if status_code response \<noteq> 200
             then (Inl (public_failure (Exception
                     (''Cannot access folder. Status: '' @ str_int (status_code response)))),
                   trace)
             else
               (case extract_candidate_ids w (r_text response) of
                  Inl e \<Rightarrow> (Inl (public_failure e), trace)
                | Inr found_file_ids \<Rightarrow>
                    (let acc = scan_candidates w folder_id allowed_extensions
                                 found_file_ids ([], trace)
                     in if fst acc = []
                        then (Inr (fst acc), snd acc @ last_resort w folder_id)
                        else (Inr (fst acc), snd acc))))"

section \<open>Listing with an authenticated session\<close>

definition parents_query :: "string \<Rightarrow> string" where
  "parents_query folder_id =
     [CHR 0x27] @ folder_id @ [CHR 0x27] @ '' in parents and trashed=false''"

text \<open>\<^verbatim>\<open>not file_types or item['mimeType'] in file_types\<close>.\<close>

definition matches_filter :: "string list option \<Rightarrow> string \<Rightarrow> bool" where
  "matches_filter file_types mime =
     (case file_types of
        None \<Rightarrow> True
      | Some ts \<Rightarrow> ts = [] \<or> mime \<in> set ts)"

definition get_size :: "item \<Rightarrow> size_val" where
  "get_size it = (case item_size it of None \<Rightarrow> Int_size 0 | Some s \<Rightarrow> Str_size s)"

definition api_record :: "item \<Rightarrow> file_record" where
  "api_record it =
     \<lparr>fr_id = item_id it, fr_name = item_name it, fr_mimeType = item_mimeType it,
      fr_size = get_size it, fr_createdTime = item_createdTime it, fr_path = None\<rparr>"

definition default_file_types :: "string list" where
  "default_file_types =
     [''application/pdf'',
      ''application/vnd.google-apps.document'',
      ''application/vnd.openxmlformats-officedocument.wordprocessingml.document'',
      ''image/jpeg'',
      ''image/png'']"

text \<open>
  \<^verbatim>\<open>list_folder_files\<close>: the public listing first; when it raises, the flat
  authenticated listing, which needs a session.
\<close>

definition list_folder_files ::
  "world \<Rightarrow> handler \<Rightarrow> string \<Rightarrow> string list option \<Rightarrow>
   (exn + file_record list) \<times> event list" where
  "list_folder_files w h folder_url file_types =
     (case list_folder_files_public w folder_url file_types of
        (Inr files, trace) \<Rightarrow> (Inr files, trace)
      | (Inl public_error, trace) \<Rightarrow>
          (case service h of
             None \<Rightarrow>
               (Inl (Exception
                  (''Folder requires authentication. Public access failed: ''
                   @ message public_error @ [CHR 0x0A]
                   @ ''Please authenticate with OAuth2 to access private folders.'')),
                trace)
           | Some svc \<Rightarrow>
               (let folder_id = extract_folder_id folder_url;
                    file_types' =
                      (case file_types of None \<Rightarrow> Some default_file_types | Some ts \<Rightarrow> Some ts);
                    query = parents_query folder_id
                in case files_list svc query of
                     Inl e \<Rightarrow> (Inl e, trace @ [Files_list query])
                   | Inr items \<Rightarrow>
                       (Inr (map api_record
                               (filter (\<lambda>it. matches_filter file_types' (item_mimeType it))
                                  items)),
                        trace @ [Files_list query]))))"

definition folder_mime :: string where
  "folder_mime = ''application/vnd.google-apps.folder''"

text \<open>\<^verbatim>\<open>f"{path}/{item['name']}" if path else item['name']\<close>.\<close>

definition child_path :: "string \<Rightarrow> string \<Rightarrow> string" where
  "child_path path name = (if path \<noteq> [] then path @ ''/'' @ name else name)"

definition tree_record :: "string \<Rightarrow> item \<Rightarrow> file_record" where
  "tree_record path it =
     \<lparr>fr_id = item_id it, fr_name = item_name it, fr_mimeType = item_mimeType it,
      fr_size = get_size it, fr_createdTime = item_createdTime it,
      fr_path = Some (child_path path (item_name it))\<rparr>"

text \<open>
  The loop of \<^verbatim>\<open>_recurse_folder\<close> over the items of one folder; \<open>recurse\<close> is the
  recursive call. \<open>None\<close> is a call that went deeper than the bound below.
\<close>

fun recurse_items ::
  "(string \<Rightarrow> string \<Rightarrow> file_record list \<times> event list \<Rightarrow> (file_record list \<times> event list) option)
   \<Rightarrow> string list option \<Rightarrow> string \<Rightarrow> item list \<Rightarrow> file_record list \<times> event list
   \<Rightarrow> (file_record list \<times> event list) option" where
  "recurse_items recurse file_types path [] acc = Some acc"
| "recurse_items recurse file_types path (it # items) acc =
     (if item_mimeType it = folder_mime
      then (case recurse (item_id it) (child_path path (item_name it)) acc of
              None \<Rightarrow> None
            | Some acc' \<Rightarrow> recurse_items recurse file_types path items acc')
      else if matches_filter file_types (item_mimeType it)
      then recurse_items recurse file_types path items
             (fst acc @ [tree_record path it], snd acc)
      else recurse_items recurse file_types path items acc)"

text \<open>
  \<^verbatim>\<open>_recurse_folder\<close>, with the depth of the recursion bounded by the first argument
  (the provider's folders need not form a tree, and the code has no guard of its own).
  A query that raises is caught in the frame that made it: the frame returns, and
  \<^verbatim>\<open>all_files\<close> keeps what it held. The result \<open>None\<close> says that the bound was
  reached, and nothing is stated of such a run: there the interpreter's own limit on
  the depth of calls decides (it raises RecursionError in some frame, whose handler
  catches it like a failed query), and the listing depends on where that happens.
  Every result below is about a run that stays within the bound.
\<close>

primrec recurse_folder ::
  "nat \<Rightarrow> service \<Rightarrow> string list option \<Rightarrow> string \<Rightarrow> string \<Rightarrow>
   file_record list \<times> event list \<Rightarrow> (file_record list \<times> event list) option" where
  "recurse_folder 0 svc file_types folder_id path acc = None"
| "recurse_folder (Suc depth) svc file_types folder_id path acc =
     (case files_list svc (parents_query folder_id) of
        Inl e \<Rightarrow> Some (fst acc, snd acc @ [Files_list (parents_query folder_id)])
      | Inr items \<Rightarrow>
          recurse_items (recurse_folder depth svc file_types) file_types path items
            (fst acc, snd acc @ [Files_list (parents_query folder_id)]))"

definition list_folder_recursive ::
  "nat \<Rightarrow> handler \<Rightarrow> string \<Rightarrow> string list option \<Rightarrow>
   ((exn + file_record list) \<times> event list) option" where
  "list_folder_recursive depth h folder_url file_types =
     (case service h of
        None \<Rightarrow> Some (Inl (Exception ''Not authenticated with Google Drive''), [])
      | Some svc \<Rightarrow>
          (case recurse_folder depth svc file_types (extract_folder_id folder_url) [] ([], []) of
             None \<Rightarrow> None
           | Some acc \<Rightarrow> Some (Inr (fst acc), snd acc)))"

section \<open>Downloading\<close>

text \<open>
  \<^verbatim>\<open>response.iter_content(chunk_size)\<close> on a body already read through
  \<^verbatim>\<open>response.text\<close>: its slices, in order.
\<close>

function iter_content :: "nat \<Rightarrow> string \<Rightarrow> string list" where
  "iter_content chunk_size body =
     (if chunk_size = 0 \<or> body = [] then []
      else take chunk_size body # iter_content chunk_size (drop chunk_size body))"
  by pat_completeness auto
termination
  by (relation "measure (\<lambda>(chunk_size, body). length body)") auto

text \<open>The loop writing the chunks: empty chunks are skipped, a failing write raises.\<close>

fun write_chunks ::
  "world \<Rightarrow> string \<Rightarrow> string list \<Rightarrow> event list \<Rightarrow> exn option \<times> event list" where
  "write_chunks w file_path [] trace = (None, trace)"
| "write_chunks w file_path (chunk # chunks) trace =
     (if chunk \<noteq> []
      then (case fwrite w file_path chunk of
              Some e \<Rightarrow> (Some e, trace @ [Fwrite file_path chunk])
            | None \<Rightarrow> write_chunks w file_path chunks (trace @ [Fwrite file_path chunk]))
      else write_chunks w file_path chunks trace)"

definition download_url :: "string \<Rightarrow> string" where
  "download_url file_id = ''https://drive.google.com/uc?export=download&id='' @ file_id"

text \<open>
  The first part of \<^verbatim>\<open>download_file_public\<close>, after the first request has
  returned: on the size-warning page, the confirmed link is requested instead.
\<close>

definition confirm_download ::
  "world \<Rightarrow> string \<Rightarrow> response \<Rightarrow> (exn + response) \<times> event list" where
  "confirm_download w file_id response =
     (if contains ''virus scan warning'' (lower (r_text response))
         \<or> contains ''download'' (lower (r_url response))
      then (case re_search w Confirm_href (r_text response) of
              Some g \<Rightarrow>
                (requests_get w (''https://drive.google.com'' @ g),
                 [Http_get (download_url file_id),
                  Http_get (''https://drive.google.com'' @ g)])
            | None \<Rightarrow> (Inr response, [Http_get (download_url file_id)]))
      else (Inr response, [Http_get (download_url file_id)]))"

text \<open>The second part: the body is written to the temporary directory.\<close>

definition save_response ::
  "world \<Rightarrow> handler \<Rightarrow> string \<Rightarrow> response \<Rightarrow> event list \<Rightarrow> (exn + string) \<times> event list" where
  "save_response w h file_name response trace =
     (let file_path = path_join (temp_dir h) file_name in
      case open_wb w file_path of
        Some e \<Rightarrow> (Inl e, trace @ [Open_wb file_path])
      | None \<Rightarrow>
          (case write_chunks w file_path (iter_content 8192 (r_content response))
                  (trace @ [Open_wb file_path]) of
             (Some e, trace') \<Rightarrow> (Inl e, trace')
           | (None, trace') \<Rightarrow> (Inr file_path, trace')))"

text \<open>
  \<^verbatim>\<open>download_file_public\<close>. Its handler prints and re-raises, so every exception
  leaves as it is.
\<close>

definition download_file_public ::
  "world \<Rightarrow> handler \<Rightarrow> string \<Rightarrow> string \<Rightarrow> (exn + string) \<times> event list" where
  "download_file_public w h file_id file_name =
     (case requests_get w (download_url file_id) of
        Inl e \<Rightarrow> (Inl e, [Http_get (download_url file_id)])
      | Inr response \<Rightarrow>
          (case confirm_download w file_id response of
             (Inl e, trace) \<Rightarrow> (Inl e, trace)
           | (Inr response', trace) \<Rightarrow> save_response w h file_name response' trace))"

text \<open>
  \<^verbatim>\<open>while not done: _, done = downloader.next_chunk()\<close>. The loop ends when the
  library says so; \<open>fuel\<close> bounds the calls, and \<open>None\<close> is a loop that has not ended.
\<close>

fun drain ::
  "nat \<Rightarrow> service \<Rightarrow> media_request \<Rightarrow> nat \<Rightarrow> event list \<Rightarrow> (exn option \<times> event list) option" where
  "drain 0 svc request i trace = None"
| "drain (Suc fuel) svc request i trace =
     (case next_chunk svc request i of
        Inl e \<Rightarrow> Some (Some e, trace @ [Next_chunk request i])
      | Inr done \<Rightarrow>
          if done then Some (None, trace @ [Next_chunk request i])
          else drain fuel svc request (Suc i) (trace @ [Next_chunk request i]))"

text \<open>The tail of the authenticated path: open the target and run the download.\<close>

definition fetch_media ::
  "nat \<Rightarrow> world \<Rightarrow> handler \<Rightarrow> service \<Rightarrow> media_request \<Rightarrow> string \<Rightarrow> event list \<Rightarrow>
   ((exn + string) \<times> event list) option" where
  "fetch_media fuel w h svc request file_name trace =
     (let file_path = path_join (temp_dir h) file_name;
          trace1 = trace @ [Media_request request, Open_wb file_path]
      in case open_wb w file_path of
           Some e \<Rightarrow> Some (Inl e, trace1)
         | None \<Rightarrow>
             (case drain fuel svc request 0 trace1 of
                None \<Rightarrow> None
              | Some (Some e, trace2) \<Rightarrow> Some (Inl e, trace2)
              | Some (None, trace2) \<Rightarrow> Some (Inr file_path, trace2)))"

text \<open>
  \<^verbatim>\<open>download_file\<close>: the public download first; when it raises, the authenticated
  one, which needs a session. The handler of the authenticated part prints and re-raises.
\<close>

definition download_file ::
  "nat \<Rightarrow> world \<Rightarrow> handler \<Rightarrow> string \<Rightarrow> string \<Rightarrow> ((exn + string) \<times> event list) option" where
  "download_file fuel w h file_id file_name =
     (case download_file_public w h file_id file_name of
        (Inr file_path, trace) \<Rightarrow> Some (Inr file_path, trace)
      | (Inl public_error, trace) \<Rightarrow>
          (case service h of
             None \<Rightarrow>
               Some (Inl (Exception
                       (''File requires authentication. Public download failed: ''
                        @ message public_error @ [CHR 0x0A]
                        @ ''Please authenticate with OAuth2 to access private files.'')),
                     trace)
           | Some svc \<Rightarrow>
               (case files_get svc file_id of
                  Inl e \<Rightarrow> Some (Inl e, trace @ [Files_get file_id])
                | Inr mime_type \<Rightarrow>
                    if startswith mime_type ''application/vnd.google-apps''
                    then
                      if contains ''document'' mime_type
                      then fetch_media fuel w h svc (Export_media file_id ''application/pdf'')
                             (replace ''.gdoc'' ''.pdf'' file_name) (trace @ [Files_get file_id])
                      else Some (Inl (Exception (''Unsupported Google Apps type: '' @ mime_type)),
                                 trace @ [Files_get file_id])
                    else fetch_media fuel w h svc (Get_media file_id) file_name
                           (trace @ [Files_get file_id]))))"

text \<open>\<^verbatim>\<open>{**file_info, 'local_path': file_path}\<close>.\<close>

definition with_local_path :: "file_record \<Rightarrow> string \<Rightarrow> download_result" where
  "with_local_path file_info file_path =
     file_record.extend file_info (download_result.fields file_path)"

text \<open>The loop of \<^verbatim>\<open>download_folder\<close>: a download that raises is printed and skipped.\<close>

fun download_each ::
  "nat \<Rightarrow> world \<Rightarrow> handler \<Rightarrow> file_record list \<Rightarrow> download_result list \<times> event list \<Rightarrow>
   (download_result list \<times> event list) option" where
  "download_each fuel w h [] acc = Some acc"
| "download_each fuel w h (file_info # files) acc =
     (case download_file fuel w h (fr_id file_info) (fr_name file_info) of
        None \<Rightarrow> None
      | Some (Inl e, trace) \<Rightarrow> download_each fuel w h files (fst acc, snd acc @ trace)
      | Some (Inr file_path, trace) \<Rightarrow>
          download_each fuel w h files
            (fst acc @ [with_local_path file_info file_path], snd acc @ trace))"

definition download_folder ::
  "nat \<Rightarrow> world \<Rightarrow> handler \<Rightarrow> string \<Rightarrow> bool \<Rightarrow>
   ((exn + download_result list) \<times> event list) option" where
  "download_folder fuel w h folder_url recursive =
     (case (if recursive then list_folder_recursive fuel h folder_url None
            else Some (list_folder_files w h folder_url None)) of
        None \<Rightarrow> None
      | Some (Inl e, trace) \<Rightarrow> Some (Inl e, trace)
      | Some (Inr files, trace) \<Rightarrow>
          (case download_each fuel w h files ([], trace) of
             None \<Rightarrow> None
           | Some acc \<Rightarrow> Some (Inr (fst acc), snd acc)))"

text \<open>Events that only a call on the authenticated session produces.\<close>

fun is_session_event :: "event \<Rightarrow> bool" where
  "is_session_event (Files_list q) = True"
| "is_session_event (Files_get file_id) = True"
| "is_session_event (Media_request request) = True"
| "is_session_event (Next_chunk request i) = True"
| "is_session_event ev = False"


text \<open>
  Two worlds that differ only in what the sharing-mode page of the folder answers and in
  what the PDF-reference pattern finds.
\<close>

definition same_but_last_resort :: "world \<Rightarrow> world \<Rightarrow> string \<Rightarrow> bool" where
  "same_but_last_resort w w' folder_id \<longleftrightarrow>
     (\<forall>url. url \<noteq> api_url folder_id \<longrightarrow> requests_get w' url = requests_get w url)
     \<and> (\<forall>p. p \<noteq> Pdf_ref \<longrightarrow> re_findall w' p = re_findall w p)
     \<and> re_search w' = re_search w"

section \<open>Concrete worlds\<close>

text \<open>The inputs at which the theorems below are instantiated.\<close>

definition no_matches :: "pattern \<Rightarrow> string \<Rightarrow> matches" where
  "no_matches p s = Strings []"

text \<open>A world in which every request times out.\<close>

definition offline_world :: world where
  "offline_world =
     \<lparr>requests_get = (\<lambda>url. Inl (Exception ''timed out'')),
      re_findall = no_matches,
      re_search = (\<lambda>p s. None),
      open_wb = (\<lambda>path. None),
      fwrite = (\<lambda>path chunk. None)\<rparr>"

definition anonymous :: handler where
  "anonymous = \<lparr>service = None, temp_dir = ''/tmp''\<rparr>"

text \<open>
  A session that knows one document (\<open>doc1\<close>) and one spreadsheet (\<open>sheet1\<close>); a
  download is done at its second chunk.
\<close>

definition docs_service :: service where
  "docs_service =
     \<lparr>files_list = (\<lambda>q. Inr []),
      files_get = (\<lambda>file_id.
         if file_id = ''doc1'' then Inr ''application/vnd.google-apps.document''
         else if file_id = ''sheet1'' then Inr ''application/vnd.google-apps.spreadsheet''
         else Inl (Exception ''File not found'')),
      next_chunk = (\<lambda>request i. Inr (1 \<le> i))\<rparr>"

definition docs_handler :: handler where
  "docs_handler = \<lparr>service = Some docs_service, temp_dir = ''/tmp''\<rparr>"

text \<open>
  A folder \<open>root\<close> with two PDF files. The first downloads publicly; every other
  request times out, and the session refuses to describe any file.
\<close>

definition item_a :: item where
  "item_a = \<lparr>item_id = ''fileA'', item_name = ''a.pdf'', item_mimeType = ''application/pdf'',
             item_size = Some ''4'', item_createdTime = None\<rparr>"

definition item_b :: item where
  "item_b = \<lparr>item_id = ''fileB'', item_name = ''b.pdf'', item_mimeType = ''application/pdf'',
             item_size = None, item_createdTime = None\<rparr>"

definition two_files_service :: service where
  "two_files_service =
     \<lparr>files_list = (\<lambda>q. if q = parents_query ''root'' then Inr [item_a, item_b] else Inr []),
      files_get = (\<lambda>file_id. Inl (Exception ''forbidden'')),
      next_chunk = (\<lambda>request i. Inr True)\<rparr>"

definition two_files_handler :: handler where
  "two_files_handler = \<lparr>service = Some two_files_service, temp_dir = ''/tmp''\<rparr>"

definition one_public_world :: world where
  "one_public_world =
     \<lparr>requests_get = (\<lambda>url.
         if url = download_url ''fileA''
         then Inr \<lparr>status_code = 200, r_text = ''data'',
                   r_url = ''https://doc-00.googleusercontent.com/docs/fileA'',
                   r_content = ''data''\<rparr>
         else Inl (Exception ''timed out'')),
      re_findall = no_matches,
      re_search = (\<lambda>p s. None),
      open_wb = (\<lambda>path. None),
      fwrite = (\<lambda>path chunk. None)\<rparr>"

text \<open>
  A public folder page that links two files: the view page of the first is titled
  \<open>Report.PDF\<close>, that of the second \<open>notes.txt\<close>.
\<close>

definition page_of :: "string \<Rightarrow> response" where
  "page_of body = \<lparr>status_code = 200, r_text = body, r_url = [], r_content = body\<rparr>"

definition scraped_world :: world where
  "scraped_world =
     \<lparr>requests_get = (\<lambda>url.
         if url = folder_view_url ''FOLDER1'' then Inr (page_of ''folder page'')
         else if url = file_info_url ''fileA'' then Inr (page_of ''page A'')
         else if url = file_info_url ''fileB'' then Inr (page_of ''page B'')
         else Inl (Exception ''timed out'')),
      re_findall = (\<lambda>p s.
         if p = File_link \<and> s = ''folder page''
         then Strings [''fileA'', ''fileB'', ''fileA'']
         else Strings []),
      re_search = (\<lambda>p s.
         if p = Title_tag \<and> s = ''page A'' then Some ''Report.PDF - Google Drive''
         else if p = Title_tag \<and> s = ''page B'' then Some ''notes.txt - Google Drive''
         else None),
      open_wb = (\<lambda>path. None),
      fwrite = (\<lambda>path chunk. None)\<rparr>"

text \<open>A world in which every page is served and is empty, and one that refuses every page.\<close>

definition empty_page_world :: world where
  "empty_page_world =
     \<lparr>requests_get = (\<lambda>url. Inr (page_of [])),
      re_findall = no_matches,
      re_search = (\<lambda>p s. None),
      open_wb = (\<lambda>path. None),
      fwrite = (\<lambda>path chunk. None)\<rparr>"

definition forbidden_world :: world where
  "forbidden_world =
     \<lparr>requests_get = (\<lambda>url. Inr \<lparr>status_code = 403, r_text = ''Forbidden'',
                                    r_url = url, r_content = ''Forbidden''\<rparr>),
      re_findall = no_matches,
      re_search = (\<lambda>p s. None),
      open_wb = (\<lambda>path. None),
      fwrite = (\<lambda>path chunk. None)\<rparr>"

text \<open>The empty-page world, but the sharing-mode page of the folder names a PDF.\<close>

definition pdf_hint_world :: world where
  "pdf_hint_world =
     empty_page_world
       \<lparr>requests_get := (\<lambda>url.
          if url = api_url ''FOLDER1'' then Inr (page_of ''see /plan.pdf'')
          else Inr (page_of [])),
        re_findall := (\<lambda>p s.
          if p = Pdf_ref \<and> s = ''see /plan.pdf'' then Strings [''plan.pdf'']
          else Strings [])\<rparr>"

text \<open>
  Folders for the recursive listing: \<open>root\<close> holds the folders \<open>broken\<close> (whose
  listing fails) and \<open>docs\<close> (which holds \<open>a.pdf\<close>); \<open>mixed\<close> holds \<open>docs\<close> and
  \<open>a.pdf\<close> side by side; \<open>shelf\<close> holds a text file, the folder \<open>papers\<close> and an
  image, and \<open>papers\<close> holds the text file, \<open>a.pdf\<close> and the image.
\<close>

definition item_t :: item where
  "item_t = \<lparr>item_id = ''fileT'', item_name = ''notes.txt'', item_mimeType = ''text/plain'',
             item_size = Some ''12'', item_createdTime = None\<rparr>"

definition item_p :: item where
  "item_p = \<lparr>item_id = ''fileP'', item_name = ''scan.png'', item_mimeType = ''image/png'',
             item_size = None, item_createdTime = None\<rparr>"

definition folder_x :: item where
  "folder_x = \<lparr>item_id = ''subX'', item_name = ''broken'', item_mimeType = folder_mime,
               item_size = None, item_createdTime = None\<rparr>"

definition folder_y :: item where
  "folder_y = \<lparr>item_id = ''subY'', item_name = ''docs'', item_mimeType = folder_mime,
               item_size = None, item_createdTime = None\<rparr>"

definition folder_z :: item where
  "folder_z = \<lparr>item_id = ''subZ'', item_name = ''papers'', item_mimeType = folder_mime,
               item_size = None, item_createdTime = None\<rparr>"

definition tree_service :: service where
  "tree_service =
     \<lparr>files_list = (\<lambda>q.
         if q = parents_query ''root'' then Inr [folder_x, folder_y]
         else if q = parents_query ''mixed'' then Inr [folder_y, item_a]
         else if q = parents_query ''shelf'' then Inr [item_t, folder_z, item_p]
         else if q = parents_query ''subX'' then Inl (Exception ''quota exceeded'')
         else if q = parents_query ''subY'' then Inr [item_a]
         else if q = parents_query ''subZ'' then Inr [item_t, item_a, item_p]
         else Inr []),
      files_get = (\<lambda>file_id. Inl (Exception ''forbidden'')),
      next_chunk = (\<lambda>request i. Inr True)\<rparr>"

definition tree_handler :: handler where
  "tree_handler = \<lparr>service = Some tree_service, temp_dir = ''/tmp''\<rparr>"

section \<open>Facts about the string operations\<close>

lemma startswith_iff: "startswith s p \<longleftrightarrow> (\<exists>r. s = p @ r)"
  by (induction s p rule: startswith.induct) auto

lemma startswith_append_self: "startswith (p @ r) p"
  by (simp add: startswith_iff)

lemma endswith_iff: "endswith s p \<longleftrightarrow> (\<exists>r. s = r @ p)"
proof
  assume "endswith s p"
  then obtain r where "rev s = rev p @ r"
    by (auto simp: endswith_def startswith_iff)
  then have "s = rev r @ p"
    by (metis rev_append rev_rev_ident)
  then show "\<exists>r. s = r @ p" ..
next
  assume "\<exists>r. s = r @ p"
  then show "endswith s p"
    by (auto simp: endswith_def startswith_iff)
qed

lemma contains_iff: "contains sub s \<longleftrightarrow> (\<exists>a b. s = a @ sub @ b)"
proof (induction s)
  case Nil
  then show ?case by auto
next
  case (Cons c cs)
  show ?case
  proof
    assume "contains sub (c # cs)"
    then consider "startswith (c # cs) sub" | "contains sub cs" by auto
    then show "\<exists>a b. c # cs = a @ sub @ b"
    proof cases
      case 1
      then obtain r where "c # cs = sub @ r" by (auto simp: startswith_iff)
      then have "c # cs = [] @ sub @ r" by simp
      then show ?thesis by blast
    next
      case 2
      then obtain a b where "cs = a @ sub @ b" using Cons.IH by auto
      then have "c # cs = (c # a) @ sub @ b" by simp
      then show ?thesis by blast
    qed
  next
    assume "\<exists>a b. c # cs = a @ sub @ b"
    then obtain a b where ab: "c # cs = a @ sub @ b" by auto
    show "contains sub (c # cs)"
    proof (cases a)
      case Nil
      then have "startswith (c # cs) sub" using ab by (simp add: startswith_iff)
      then show ?thesis by simp
    next
      case (Cons a0 as)
      then have "cs = as @ sub @ b" using ab by simp
      then show ?thesis using Cons.IH by auto
    qed
  qed
qed

lemma py_split_not_Nil: "py_split sep s \<noteq> []"
  by (induction sep s rule: py_split.induct) (auto split: list.splits)

lemma py_split_no_sep: "\<not> contains sep s \<Longrightarrow> py_split sep s = [s]"
  by (induction s) auto

lemma py_split_last_aligned:
  assumes "M \<noteq> []" and "\<not> contains M rest"
    and "\<forall>k<length pre. length pre < k + length M \<longrightarrow>
           \<not> startswith (drop k (pre @ M @ rest)) M"
  shows "\<exists>ps. ps \<noteq> [] \<and> py_split M (pre @ M @ rest) = ps @ [rest]"
  using assms(3)
proof (induction pre rule: length_induct)
  case (1 pre)
  show ?case
  proof (cases pre)
    case Nil
    have "py_split M (M @ rest) = [] # py_split M rest"
      using assms(1) by (cases M) (simp_all add: startswith_iff)
    then have "py_split M (pre @ M @ rest) = [[]] @ [rest]"
      using Nil assms(2) by (simp add: py_split_no_sep)
    then show ?thesis by blast
  next
    case (Cons c p)
    show ?thesis
    proof (cases "startswith (pre @ M @ rest) M")
      case True
      have "\<not> length pre < length M"
        using "1.prems" True Cons by (auto dest: spec [of _ 0])
      then have len: "length M \<le> length pre" by simp
      let ?pre' = "drop (length M) pre"
      have shorter: "length ?pre' < length pre"
        using assms(1) Cons by simp
      have cond: "\<forall>k<length ?pre'. length ?pre' < k + length M \<longrightarrow>
           \<not> startswith (drop k (?pre' @ M @ rest)) M"
      proof (intro allI impI)
        fix k assume k: "k < length ?pre'" "length ?pre' < k + length M"
        have "drop k (?pre' @ M @ rest) = drop (k + length M) (pre @ M @ rest)"
          using len by (simp add: add.commute)
        moreover have "k + length M < length pre" "length pre < (k + length M) + length M"
          using k len by auto
        ultimately show "\<not> startswith (drop k (?pre' @ M @ rest)) M"
          using "1.prems" by metis
      qed
      from "1.IH" shorter cond obtain ps where
        ps: "ps \<noteq> []" "py_split M (?pre' @ M @ rest) = ps @ [rest]" by blast
      have "py_split M (pre @ M @ rest) = [] # py_split M (drop (length M) (pre @ M @ rest))"
        using True assms(1) Cons by simp
      also have "drop (length M) (pre @ M @ rest) = ?pre' @ M @ rest"
        using len by simp
      finally have "py_split M (pre @ M @ rest) = ([] # ps) @ [rest]"
        using ps by simp
      then show ?thesis by blast
    next
      case False
      have cond: "\<forall>k<length p. length p < k + length M \<longrightarrow>
           \<not> startswith (drop k (p @ M @ rest)) M"
      proof (intro allI impI)
        fix k assume k: "k < length p" "length p < k + length M"
        have "drop k (p @ M @ rest) = drop (Suc k) (pre @ M @ rest)"
          using Cons by simp
        moreover have "Suc k < length pre" "length pre < Suc k + length M"
          using k Cons by auto
        ultimately show "\<not> startswith (drop k (p @ M @ rest)) M"
          using "1.prems" by metis
      qed
      from "1.IH" Cons cond obtain ps where
        ps: "ps \<noteq> []" "py_split M (p @ M @ rest) = ps @ [rest]" by auto
      then obtain q qs where q: "ps = q # qs" by (cases ps) auto
      have "py_split M (pre @ M @ rest) = ((c # q) # qs) @ [rest]"
        using False Cons ps q by simp
      then show ?thesis by blast
    qed
  qed
qed


lemma startswith_take:
  "startswith (d @ x) M \<Longrightarrow> length d \<le> length M \<Longrightarrow> d = take (length d) M"
  by (auto simp: startswith_iff append_eq_append_conv2)

lemma no_overlap_id:
  "n \<in> {1, 2} \<Longrightarrow> \<not> startswith (take n ''id='' @ ''id='' @ rest) ''id=''"
  by (elim insertE emptyE) simp_all

lemma no_overlap_folders:
  "n \<in> {1, 2, 3, 4, 5, 6, 7} \<Longrightarrow>
   \<not> startswith (take n ''/folders/'' @ ''/folders/'' @ rest) ''/folders/''"
  by (elim insertE emptyE) simp_all

lemma last_split_id:
  assumes "\<not> contains ''id='' rest"
  shows "last (py_split ''id='' (pre @ ''id='' @ rest)) = rest"
proof -
  have "\<forall>k<length pre. length pre < k + length ''id='' \<longrightarrow>
          \<not> startswith (drop k (pre @ ''id='' @ rest)) ''id=''"
  proof (intro allI impI notI)
    fix k
    assume k: "k < length pre" "length pre < k + length ''id=''"
      and sw: "startswith (drop k (pre @ ''id='' @ rest)) ''id=''"
    define d where "d = drop k pre"
    have sw': "startswith (d @ ''id='' @ rest) ''id=''"
      using sw k by (simp add: d_def)
    have len: "length d \<in> {1, 2}" using k by (auto simp: d_def)
    then have "d = take (length d) ''id=''"
      using sw' by (intro startswith_take [of _ "''id='' @ rest"]) auto
    then have "startswith (take (length d) ''id='' @ ''id='' @ rest) ''id=''"
      using sw' by metis
    then show False
      using no_overlap_id [OF len] by blast
  qed
  with assms obtain ps where "py_split ''id='' (pre @ ''id='' @ rest) = ps @ [rest]"
    using py_split_last_aligned [of "''id=''" rest pre] by auto
  then show ?thesis by simp
qed

lemma last_split_folders:
  assumes "\<not> contains ''/folders/'' rest" and "\<not> endswith pre ''/folders''"
  shows "last (py_split ''/folders/'' (pre @ ''/folders/'' @ rest)) = rest"
proof -
  have "\<forall>k<length pre. length pre < k + length ''/folders/'' \<longrightarrow>
          \<not> startswith (drop k (pre @ ''/folders/'' @ rest)) ''/folders/''"
  proof (intro allI impI notI)
    fix k
    assume k: "k < length pre" "length pre < k + length ''/folders/''"
      and sw: "startswith (drop k (pre @ ''/folders/'' @ rest)) ''/folders/''"
    define d where "d = drop k pre"
    have sw': "startswith (d @ ''/folders/'' @ rest) ''/folders/''"
      using sw k by (simp add: d_def)
    have len: "1 \<le> length d" "length d \<le> 8" using k by (auto simp: d_def)
    then have d: "d = take (length d) ''/folders/''"
      using sw' by (intro startswith_take [of _ "''/folders/'' @ rest"]) auto
    have "pre = take k pre @ d" by (simp add: d_def)
    then have "d \<noteq> ''/folders''"
      using assms(2) by (metis endswith_iff)
    moreover have "take 8 ''/folders/'' = ''/folders''" by simp
    ultimately have "length d \<noteq> 8"
      using d by metis
    then have "length d \<in> {1, 2, 3, 4, 5, 6, 7}" using len by auto
    moreover have "startswith (take (length d) ''/folders/'' @ ''/folders/'' @ rest) ''/folders/''"
      using sw' d by metis
    ultimately show False
      using no_overlap_folders by blast
  qed
  with assms obtain ps where
    "py_split ''/folders/'' (pre @ ''/folders/'' @ rest) = ps @ [rest]"
    using py_split_last_aligned [of "''/folders/''" rest pre] by auto
  then show ?thesis by simp
qed

lemma contains_single: "contains [c] s \<longleftrightarrow> c \<in> set s"
  by (induction s) auto

lemma hd_split_char:
  assumes "c \<notin> set F" and "suf = [] \<or> hd suf = c"
  shows "hd (py_split [c] (F @ suf)) = F"
proof (cases suf)
  case Nil
  then show ?thesis using assms(1) by (simp add: py_split_no_sep contains_single)
next
  case (Cons s0 ss)
  then have s0: "s0 = c" using assms(2) by simp
  have "hd (py_split [c] (F @ c # ss)) = F"
    using assms(1)
  proof (induction F)
    case Nil
    then show ?case by simp
  next
    case (Cons a F)
    then show ?case using py_split_not_Nil [of "[c]" "F @ c # ss"]
      by (auto split: list.splits)
  qed
  then show ?thesis using Cons s0 by simp
qed

text \<open>
  Where the marker that carries the identifier is the last one the split finds, the
  identifier is what \<open>extract_folder_id\<close> returns.
\<close>

lemma extract_folder_id_single_marker:
  "(\<forall>pre F suf. CHR ''?'' \<notin> set F \<and> (suf = [] \<or> hd suf = CHR ''?'')
       \<and> \<not> contains ''/folders/'' (F @ suf) \<and> \<not> endswith pre ''/folders''
     \<longrightarrow> extract_folder_id (pre @ ''/folders/'' @ F @ suf) = F)
   \<and> (\<forall>pre F suf. CHR ''&'' \<notin> set F \<and> (suf = [] \<or> hd suf = CHR ''&'')
       \<and> \<not> contains ''id='' (F @ suf)
       \<and> \<not> contains ''/folders/'' (pre @ ''id='' @ F @ suf)
     \<longrightarrow> extract_folder_id (pre @ ''id='' @ F @ suf) = F)
   \<and> (\<forall>F. \<not> contains ''/folders/'' F \<and> \<not> contains ''id='' F
     \<longrightarrow> extract_folder_id F = F)"
proof (intro conjI allI impI)
  fix pre F suf :: string
  assume h: "CHR ''?'' \<notin> set F \<and> (suf = [] \<or> hd suf = CHR ''?'')
       \<and> \<not> contains ''/folders/'' (F @ suf) \<and> \<not> endswith pre ''/folders''"
  have c: "contains ''/folders/'' (pre @ ''/folders/'' @ F @ suf)"
    unfolding contains_iff by blast
  have "last (py_split ''/folders/'' (pre @ ''/folders/'' @ (F @ suf))) = F @ suf"
    using h by (intro last_split_folders) auto
  then show "extract_folder_id (pre @ ''/folders/'' @ F @ suf) = F"
    using c h hd_split_char [of "CHR ''?''" F suf] by (simp add: extract_folder_id_def)
next
  fix pre F suf :: string
  assume h: "CHR ''&'' \<notin> set F \<and> (suf = [] \<or> hd suf = CHR ''&'')
       \<and> \<not> contains ''id='' (F @ suf)
       \<and> \<not> contains ''/folders/'' (pre @ ''id='' @ F @ suf)"
  have c: "contains ''id='' (pre @ ''id='' @ F @ suf)"
    unfolding contains_iff by blast
  have "last (py_split ''id='' (pre @ ''id='' @ (F @ suf))) = F @ suf"
    using h by (intro last_split_id) auto
  then show "extract_folder_id (pre @ ''id='' @ F @ suf) = F"
    using c h hd_split_char [of "CHR ''&''" F suf] by (simp add: extract_folder_id_def)
next
  fix F :: string
  assume "\<not> contains ''/folders/'' F \<and> \<not> contains ''id='' F"
  then show "extract_folder_id F = F"
    by (simp add: extract_folder_id_def)
qed

section \<open>Facts about the download path\<close>

lemma write_chunks_public:
  "list_all (\<lambda>ev. \<not> is_session_event ev) trace \<Longrightarrow>
   list_all (\<lambda>ev. \<not> is_session_event ev) (snd (write_chunks w file_path chunks trace))"
  by (induction chunks arbitrary: trace) (auto split: option.splits)

lemma confirm_download_public:
  "list_all (\<lambda>ev. \<not> is_session_event ev) (snd (confirm_download w file_id response))"
  by (simp add: confirm_download_def split: option.splits)

lemma save_response_public:
  assumes "list_all (\<lambda>ev. \<not> is_session_event ev) trace"
  shows "list_all (\<lambda>ev. \<not> is_session_event ev) (snd (save_response w h file_name response trace))"
proof -
  let ?file_path = "path_join (temp_dir h) file_name"
  let ?trace = "trace @ [Open_wb ?file_path]"
  have tr: "list_all (\<lambda>ev. \<not> is_session_event ev) ?trace"
    using assms by simp
  show ?thesis
  proof (cases "open_wb w ?file_path")
    case (Some e)
    then show ?thesis using tr by (simp add: save_response_def Let_def)
  next
    case None
    obtain r trace' where wc:
      "write_chunks w ?file_path (iter_content 8192 (r_content response)) ?trace = (r, trace')"
      by (cases "write_chunks w ?file_path (iter_content 8192 (r_content response)) ?trace")
    have "list_all (\<lambda>ev. \<not> is_session_event ev) trace'"
      using write_chunks_public [OF tr, of w ?file_path "iter_content 8192 (r_content response)"] wc
      by simp
    then show ?thesis
      using None wc by (cases r) (simp_all add: save_response_def Let_def)
  qed
qed

lemma download_file_public_trace:
  "list_all (\<lambda>ev. \<not> is_session_event ev) (snd (download_file_public w h file_id file_name))"
proof (cases "requests_get w (download_url file_id)")
  case (Inl e)
  then show ?thesis by (simp add: download_file_public_def)
next
  case (Inr response)
  obtain r trace where cd: "confirm_download w file_id response = (r, trace)"
    by (cases "confirm_download w file_id response")
  have tr: "list_all (\<lambda>ev. \<not> is_session_event ev) trace"
    using confirm_download_public [of w file_id response] cd by simp
  show ?thesis
    using Inr cd tr save_response_public [OF tr]
    by (cases r) (simp_all add: download_file_public_def)
qed

lemma contains_middle: "contains sub (a @ sub @ b)"
  unfolding contains_iff by blast

lemma replace_last_aligned:
  assumes "old \<noteq> []"
    and "\<forall>k<length pre. length pre < k + length old \<longrightarrow>
           \<not> startswith (drop k (pre @ old)) old"
  shows "\<exists>x. replace old new (pre @ old) = x @ new"
  using assms(2)
proof (induction pre rule: length_induct)
  case (1 pre)
  show ?case
  proof (cases pre)
    case Nil
    have "replace old new old = new"
      using assms(1) startswith_append_self [of old "[]"] by (cases old) simp_all
    then have "replace old new (pre @ old) = [] @ new" using Nil by simp
    then show ?thesis by blast
  next
    case (Cons c p)
    show ?thesis
    proof (cases "startswith (pre @ old) old")
      case True
      have "\<not> length pre < length old"
        using "1.prems" True Cons by (auto dest: spec [of _ 0])
      then have len: "length old \<le> length pre" by simp
      let ?pre' = "drop (length old) pre"
      have shorter: "length ?pre' < length pre"
        using assms(1) Cons by simp
      have cond: "\<forall>k<length ?pre'. length ?pre' < k + length old \<longrightarrow>
           \<not> startswith (drop k (?pre' @ old)) old"
      proof (intro allI impI)
        fix k assume k: "k < length ?pre'" "length ?pre' < k + length old"
        have "drop k (?pre' @ old) = drop (k + length old) (pre @ old)"
          using len by (simp add: add.commute)
        moreover have "k + length old < length pre"
          "length pre < (k + length old) + length old"
          using k len by auto
        ultimately show "\<not> startswith (drop k (?pre' @ old)) old"
          using "1.prems" by metis
      qed
      from "1.IH" shorter cond obtain x where
        x: "replace old new (?pre' @ old) = x @ new" by blast
      have "replace old new (pre @ old) = new @ replace old new (drop (length old) (pre @ old))"
        using True assms(1) Cons by simp
      also have "drop (length old) (pre @ old) = ?pre' @ old"
        using len by simp
      finally have "replace old new (pre @ old) = (new @ x) @ new"
        using x by simp
      then show ?thesis by blast
    next
      case False
      have cond: "\<forall>k<length p. length p < k + length old \<longrightarrow>
           \<not> startswith (drop k (p @ old)) old"
      proof (intro allI impI)
        fix k assume k: "k < length p" "length p < k + length old"
        have "drop k (p @ old) = drop (Suc k) (pre @ old)"
          using Cons by simp
        moreover have "Suc k < length pre" "length pre < Suc k + length old"
          using k Cons by auto
        ultimately show "\<not> startswith (drop k (p @ old)) old"
          using "1.prems" by metis
      qed
      from "1.IH" Cons cond obtain x where
        x: "replace old new (p @ old) = x @ new" by auto
      have "replace old new (pre @ old) = (c # x) @ new"
        using False Cons x by simp
      then show ?thesis by blast
    qed
  qed
qed

lemma no_overlap_gdoc:
  "n \<in> {1, 2, 3, 4} \<Longrightarrow> \<not> startswith (take n ''.gdoc'' @ ''.gdoc'') ''.gdoc''"
  by (elim insertE emptyE) simp_all

lemma replace_gdoc_suffix:
  assumes "endswith file_name ''.gdoc''"
  shows "endswith (replace ''.gdoc'' ''.pdf'' file_name) ''.pdf''"
proof -
  from assms obtain pre where pre: "file_name = pre @ ''.gdoc''"
    by (auto simp: endswith_iff)
  have "\<forall>k<length pre. length pre < k + length ''.gdoc'' \<longrightarrow>
          \<not> startswith (drop k (pre @ ''.gdoc'')) ''.gdoc''"
  proof (intro allI impI notI)
    fix k
    assume k: "k < length pre" "length pre < k + length ''.gdoc''"
      and sw: "startswith (drop k (pre @ ''.gdoc'')) ''.gdoc''"
    define d where "d = drop k pre"
    have sw': "startswith (d @ ''.gdoc'') ''.gdoc''"
      using sw k by (simp add: d_def)
    have len: "length d \<in> {1, 2, 3, 4}" using k by (auto simp: d_def)
    then have "d = take (length d) ''.gdoc''"
      using sw' by (intro startswith_take [of _ "''.gdoc''"]) auto
    then have "startswith (take (length d) ''.gdoc'' @ ''.gdoc'') ''.gdoc''"
      using sw' by metis
    then show False
      using no_overlap_gdoc [OF len] by blast
  qed
  then obtain x where "replace ''.gdoc'' ''.pdf'' (pre @ ''.gdoc'') = x @ ''.pdf''"
    using replace_last_aligned [of "''.gdoc''" pre "''.pdf''"] by auto
  then show ?thesis
    using pre by (simp add: endswith_iff)
qed

lemma path_join_suffix: "endswith b s \<Longrightarrow> endswith (path_join a b) s"
  by (auto simp: path_join_def endswith_iff)

lemma drain_done:
  "(\<forall>i<k. next_chunk svc request (j + i) = Inr False) \<Longrightarrow>
   next_chunk svc request (j + k) = Inr True \<Longrightarrow> k < fuel \<Longrightarrow>
   drain fuel svc request j trace
     = Some (None, trace @ map (Next_chunk request) [j..<j + k + 1])"
proof (induction k arbitrary: fuel j trace)
  case 0
  then obtain fuel' where "fuel = Suc fuel'" by (cases fuel) auto
  then show ?case using 0 by simp
next
  case (Suc k)
  then obtain fuel' where fuel: "fuel = Suc fuel'" by (cases fuel) auto
  have first: "next_chunk svc request j = Inr False"
    using Suc.prems(1) [rule_format, of 0] by simp
  have rest: "\<forall>i<k. next_chunk svc request (Suc j + i) = Inr False"
    using Suc.prems(1) by (auto dest: spec [of _ "Suc _"])
  have last: "next_chunk svc request (Suc j + k) = Inr True"
    using Suc.prems(2) by simp
  have "drain fuel' svc request (Suc j) (trace @ [Next_chunk request j])
          = Some (None, (trace @ [Next_chunk request j])
                        @ map (Next_chunk request) [Suc j..<Suc j + k + 1])"
    using Suc.IH [OF rest last] Suc.prems(3) fuel by simp
  moreover have "[j..<j + Suc k + 1] = j # [Suc j..<Suc j + k + 1]"
    by (simp add: upt_rec)
  ultimately show ?case
    using fuel first by simp
qed

lemma drain_extends:
  "drain fuel svc request i trace = Some (r, trace') \<Longrightarrow> \<exists>more. trace' = trace @ more"
proof (induction fuel arbitrary: i trace)
  case 0
  then show ?case by simp
next
  case (Suc fuel)
  show ?case
  proof (cases "next_chunk svc request i")
    case (Inl e)
    then show ?thesis using Suc.prems by auto
  next
    case (Inr finished)
    show ?thesis
    proof (cases finished)
      case True
      then show ?thesis using Suc.prems Inr by auto
    next
      case False
      then have "drain fuel svc request (Suc i) (trace @ [Next_chunk request i]) = Some (r, trace')"
        using Suc.prems Inr by simp
      from Suc.IH [OF this] show ?thesis by auto
    qed
  qed
qed

lemma fetch_media_returns:
  assumes "fetch_media fuel w h svc request file_name trace = Some (Inr path, trace')"
  shows "path = path_join (temp_dir h) file_name \<and> Media_request request \<in> set trace'"
proof (cases "open_wb w (path_join (temp_dir h) file_name)")
  case (Some e)
  then show ?thesis using assms by (simp add: fetch_media_def Let_def)
next
  case None
  let ?trace1 = "trace @ [Media_request request, Open_wb (path_join (temp_dir h) file_name)]"
  from assms None obtain r trace2 where
    d: "drain fuel svc request 0 ?trace1 = Some (r, trace2)"
    by (cases "drain fuel svc request 0 ?trace1") (auto simp: fetch_media_def Let_def)
  from drain_extends [OF d] obtain more where "trace2 = ?trace1 @ more" by blast
  then show ?thesis
    using assms None d by (cases r) (auto simp: fetch_media_def Let_def)
qed

lemma fetch_media_completes:
  assumes "open_wb w (path_join (temp_dir h) file_name) = None"
    and "\<forall>i<k. next_chunk svc request i = Inr False"
    and "next_chunk svc request k = Inr True"
    and "k < fuel"
  shows "\<exists>trace'. fetch_media fuel w h svc request file_name trace
           = Some (Inr (path_join (temp_dir h) file_name), trace')"
proof -
  have "drain fuel svc request 0
          (trace @ [Media_request request, Open_wb (path_join (temp_dir h) file_name)])
        = Some (None, (trace @ [Media_request request, Open_wb (path_join (temp_dir h) file_name)])
                      @ map (Next_chunk request) [0..<0 + k + 1])"
    using assms(2,3,4) by (intro drain_done) auto
  then show ?thesis
    using assms(1) by (simp add: fetch_media_def Let_def)
qed

lemma with_local_path_simps:
  "file_record.truncate (with_local_path file_info file_path) = file_info"
  "local_path (with_local_path file_info file_path) = file_path"
  "fr_id (with_local_path file_info file_path) = fr_id file_info"
  "fr_name (with_local_path file_info file_path) = fr_name file_info"
  by (cases file_info;
      simp add: with_local_path_def file_record.extend_def file_record.truncate_def
        download_result.fields_def)+

lemma truncate_fields:
  "fr_id (file_record.truncate r) = fr_id r"
  "fr_name (file_record.truncate r) = fr_name r"
  by (simp_all add: file_record.truncate_def)

lemma download_each_append:
  "download_each fuel w h (xs @ ys) acc =
     (case download_each fuel w h xs acc of
        None \<Rightarrow> None
      | Some acc' \<Rightarrow> download_each fuel w h ys acc')"
  by (induction xs arbitrary: acc) (auto split: option.splits sum.splits prod.splits)

lemma download_each_all:
  assumes "\<forall>g\<in>set gs. \<exists>p t. download_file fuel w h (fr_id g) (fr_name g) = Some (Inr p, t)"
  shows "\<exists>rs t. download_each fuel w h gs acc = Some (fst acc @ rs, t)
           \<and> map file_record.truncate rs = gs
           \<and> (\<forall>r\<in>set rs. \<exists>t. download_file fuel w h (fr_id r) (fr_name r)
                                  = Some (Inr (local_path r), t))"
  using assms
proof (induction gs arbitrary: acc)
  case Nil
  then show ?case by (cases acc) simp
next
  case (Cons g gs)
  from Cons.prems obtain p t where
    g: "download_file fuel w h (fr_id g) (fr_name g) = Some (Inr p, t)" by auto
  let ?acc' = "(fst acc @ [with_local_path g p], snd acc @ t)"
  from Cons.IH [of ?acc'] Cons.prems obtain rs t' where
    rs: "download_each fuel w h gs ?acc' = Some (fst ?acc' @ rs, t')"
      "map file_record.truncate rs = gs"
      "\<forall>r\<in>set rs. \<exists>t. download_file fuel w h (fr_id r) (fr_name r)
                         = Some (Inr (local_path r), t)"
    by auto
  have a: "download_each fuel w h (g # gs) acc
          = Some (fst acc @ (with_local_path g p # rs), t')"
    using g rs(1) by simp
  have b: "map file_record.truncate (with_local_path g p # rs) = g # gs"
    using rs(2) by (simp add: with_local_path_simps)
  have c: "\<forall>r\<in>set (with_local_path g p # rs).
                   \<exists>t. download_file fuel w h (fr_id r) (fr_name r)
                         = Some (Inr (local_path r), t)"
    using g rs(3) by (auto simp: with_local_path_simps)
  show ?case
    by (rule exI [of _ "with_local_path g p # rs"], rule exI [of _ t'])
       (use a b c in blast)
qed

section \<open>Facts about the public listing\<close>

lemma scan_candidates_invariant:
  assumes "\<forall>f\<in>set (fst acc). P f"
    and "\<And>file_id filename.
           list_ex (\<lambda>ext. endswith (lower filename) ext) allowed_extensions \<Longrightarrow>
           P (public_record file_id filename)"
  shows "\<forall>f\<in>set (fst (scan_candidates w folder_id allowed_extensions ids acc)). P f"
  using assms(1)
proof (induction ids arbitrary: acc)
  case Nil
  then show ?case by simp
next
  case (Cons file_id ids)
  show ?case
  proof (cases "file_id = folder_id")
    case True
    then show ?thesis using Cons by simp
  next
    case False
    let ?trace = "snd acc @ [Http_get (file_info_url file_id)]"
    show ?thesis
    proof (cases "requests_get w (file_info_url file_id)")
      case (Inl e)
      have "\<forall>f\<in>set (fst (fst acc, ?trace)). P f" using Cons.prems by simp
      from Cons.IH [OF this] show ?thesis using False Inl by (simp add: Let_def)
    next
      case (Inr file_response)
      let ?filename = "derive_filename w file_id (r_text file_response)"
      show ?thesis
      proof (cases "status_code file_response = 200
                    \<and> list_ex (\<lambda>ext. endswith (lower ?filename) ext) allowed_extensions")
        case True
        then have "P (public_record file_id ?filename)" using assms(2) by simp
        then have "\<forall>f\<in>set (fst (fst acc @ [public_record file_id ?filename], ?trace)). P f"
          using Cons.prems by simp
        from Cons.IH [OF this] show ?thesis using False Inr True by (simp add: Let_def)
      next
        case no: False
        have "\<forall>f\<in>set (fst (fst acc, ?trace)). P f" using Cons.prems by simp
        from Cons.IH [OF this] show ?thesis using False Inr no by (auto simp: Let_def)
      qed
    qed
  qed
qed

lemma scan_candidates_skip_folder:
  "set ids \<subseteq> {folder_id} \<Longrightarrow> scan_candidates w folder_id allowed_extensions ids acc = acc"
  by (induction ids) auto

text \<open>What the loop over the candidates adds to the trace: requests for view pages.\<close>

lemma scan_candidates_trace:
  "ev \<in> set (snd (scan_candidates w folder_id allowed_extensions ids acc)) \<Longrightarrow>
   ev \<in> set (snd acc) \<or> (\<exists>file_id. ev = Http_get (file_info_url file_id))"
proof (induction ids arbitrary: acc)
  case Nil
  then show ?case by simp
next
  case (Cons file_id ids)
  show ?case
  proof (cases "file_id = folder_id")
    case True
    then show ?thesis using Cons by simp
  next
    case False
    let ?trace = "snd acc @ [Http_get (file_info_url file_id)]"
    let ?filename = "\<lambda>r. derive_filename w file_id (r_text r)"
    from Cons.prems False obtain files where
      "ev \<in> set (snd (scan_candidates w folder_id allowed_extensions ids (files, ?trace)))"
      by (auto simp: Let_def split: sum.splits if_splits)
    from Cons.IH [OF this] show ?thesis by auto
  qed
qed

lemma folder_view_url_not_api: "folder_view_url folder_id \<noteq> api_url folder_id"
  by (simp add: folder_view_url_def api_url_def)

lemma file_info_url_not_api: "file_info_url file_id \<noteq> api_url folder_id"
  by (simp add: file_info_url_def api_url_def)

lemma allowed_extensions_pdf: "allowed_extensions_of [''application/pdf''] = [''.pdf'']"
  by (simp add: ext_map_def)

lemma scan_link_patterns_same:
  "same_but_last_resort w w' folder_id \<Longrightarrow> Pdf_ref \<notin> set ps \<Longrightarrow>
   scan_link_patterns w' html ps found = scan_link_patterns w html ps found"
  by (induction ps arbitrary: found)
     (auto simp: same_but_last_resort_def split: matches.splits sum.splits)

lemma extract_candidate_ids_same:
  assumes "same_but_last_resort w w' folder_id"
  shows "extract_candidate_ids w' html = extract_candidate_ids w html"
proof -
  have a: "scan_link_patterns w' html file_link_patterns [] =
        scan_link_patterns w html file_link_patterns []"
    using assms by (intro scan_link_patterns_same) (auto simp: file_link_patterns_def)
  have b: "re_findall w' Data_item_id = re_findall w Data_item_id"
    "re_findall w' Script_block = re_findall w Script_block"
    "re_findall w' Script_id = re_findall w Script_id"
    using assms by (simp_all add: same_but_last_resort_def)
  show ?thesis
    unfolding extract_candidate_ids_def a b by (rule refl)
qed

lemma derive_filename_same:
  assumes "same_but_last_resort w w' folder_id"
  shows "derive_filename w' file_id page = derive_filename w file_id page"
proof -
  have e: "re_search w' = re_search w"
    using assms by (simp add: same_but_last_resort_def)
  show ?thesis
    unfolding derive_filename_def e by (rule refl)
qed

lemma scan_candidates_same:
  assumes "same_but_last_resort w w' folder_id'"
  shows "scan_candidates w' folder_id allowed_extensions ids acc
         = scan_candidates w folder_id allowed_extensions ids acc"
proof (induction ids arbitrary: acc)
  case Nil
  then show ?case by simp
next
  case (Cons file_id ids)
  have a: "requests_get w' (file_info_url file_id) = requests_get w (file_info_url file_id)"
    using assms file_info_url_not_api by (simp add: same_but_last_resort_def)
  have b: "derive_filename w' file_id = derive_filename w file_id"
    using derive_filename_same [OF assms] by (intro ext)
  have c: "scan_candidates w' folder_id allowed_extensions ids
           = scan_candidates w folder_id allowed_extensions ids"
    using Cons by (intro ext)
  show ?case
    unfolding scan_candidates.simps a b c by (rule refl)
qed

section \<open>Facts about the recursive listing\<close>

lemma recurse_items_extends:
  assumes "\<And>folder_id p a a'. recurse folder_id p a = Some a' \<Longrightarrow> \<exists>more. fst a' = fst a @ more"
  shows "recurse_items recurse file_types path items acc = Some acc' \<Longrightarrow>
         \<exists>more. fst acc' = fst acc @ more"
proof (induction items arbitrary: acc)
  case Nil
  then show ?case by simp
next
  case (Cons it items)
  show ?case
  proof (cases "item_mimeType it = folder_mime")
    case True
    with Cons.prems obtain mid where
      mid: "recurse (item_id it) (child_path path (item_name it)) acc = Some mid"
        "recurse_items recurse file_types path items mid = Some acc'"
      by (auto split: option.splits)
    from assms [OF mid(1)] Cons.IH [OF mid(2)] show ?thesis by auto
  next
    case False
    show ?thesis
    proof (cases "matches_filter file_types (item_mimeType it)")
      case True
      with False Cons.prems have
        "recurse_items recurse file_types path items (fst acc @ [tree_record path it], snd acc)
         = Some acc'" by simp
      from Cons.IH [OF this] show ?thesis by auto
    next
      case no: False
      with False Cons.prems Cons.IH show ?thesis by simp
    qed
  qed
qed

lemma recurse_folder_extends:
  "recurse_folder depth svc file_types folder_id path acc = Some acc' \<Longrightarrow>
   \<exists>more. fst acc' = fst acc @ more"
proof (induction depth arbitrary: folder_id path acc acc')
  case 0
  then show ?case by simp
next
  case (Suc depth)
  show ?case
  proof (cases "files_list svc (parents_query folder_id)")
    case (Inl e)
    then show ?thesis using Suc.prems by auto
  next
    case (Inr items)
    then have "recurse_items (recurse_folder depth svc file_types) file_types path items
                 (fst acc, snd acc @ [Files_list (parents_query folder_id)]) = Some acc'"
      using Suc.prems by simp
    from recurse_items_extends [OF Suc.IH this] show ?thesis by simp
  qed
qed

lemma recurse_items_no_filter:
  "recurse_items recurse (Some []) path items acc = recurse_items recurse None path items acc"
  by (induction items arbitrary: acc) (simp_all add: matches_filter_def split: option.splits)

lemma recurse_folder_no_filter:
  "recurse_folder depth svc (Some []) = recurse_folder depth svc None"
proof (induction depth)
  case 0
  show ?case by (intro ext) simp
next
  case (Suc depth)
  show ?case
    by (intro ext) (simp add: Suc recurse_items_no_filter split: sum.splits)
qed

lemma recurse_items_files_only:
  "\<forall>it\<in>set items. item_mimeType it \<noteq> folder_mime \<Longrightarrow>
   recurse_items recurse file_types path items acc
   = Some (fst acc @ map (tree_record path)
                       (filter (\<lambda>it. matches_filter file_types (item_mimeType it)) items),
           snd acc)"
  by (induction items arbitrary: acc) simp_all

lemma recurse_items_append:
  "recurse_items recurse file_types path (xs @ ys) acc =
     (case recurse_items recurse file_types path xs acc of
        None \<Rightarrow> None
      | Some acc' \<Rightarrow> recurse_items recurse file_types path ys acc')"
  by (induction xs arbitrary: acc) (auto split: option.splits)

text \<open>Files that the filter rejects leave the records and the trace as they are.\<close>

lemma recurse_items_rejected:
  "\<forall>it\<in>set items. item_mimeType it \<noteq> folder_mime
                    \<and> \<not> matches_filter file_types (item_mimeType it) \<Longrightarrow>
   recurse_items recurse file_types path items acc = Some acc"
  by (induction items) simp_all

text \<open>One matching file among rejected ones adds exactly its record.\<close>

lemma recurse_items_one_match:
  assumes "item_mimeType f \<noteq> folder_mime"
    and "matches_filter file_types (item_mimeType f)"
    and "\<forall>it\<in>set (pre @ post). item_mimeType it \<noteq> folder_mime
                           \<and> \<not> matches_filter file_types (item_mimeType it)"
  shows "recurse_items recurse file_types path (pre @ f # post) acc
         = Some (fst acc @ [tree_record path f], snd acc)"
proof -
  have pre: "recurse_items recurse file_types path pre acc = Some acc"
    using assms(3) by (intro recurse_items_rejected) simp
  have post: "recurse_items recurse file_types path post a = Some a" for a
    using assms(3) by (intro recurse_items_rejected) simp
  show ?thesis
    using assms(1,2) pre post by (simp add: recurse_items_append)
qed

text \<open>One subfolder among rejected files: the loop is the call on the subfolder.\<close>

lemma recurse_items_one_folder:
  assumes "item_mimeType sub = folder_mime"
    and "\<forall>it\<in>set (pre @ post). item_mimeType it \<noteq> folder_mime
                           \<and> \<not> matches_filter file_types (item_mimeType it)"
  shows "recurse_items recurse file_types path (pre @ sub # post) acc
         = recurse (item_id sub) (child_path path (item_name sub)) acc"
proof -
  have pre: "recurse_items recurse file_types path pre acc = Some acc"
    using assms(2) by (intro recurse_items_rejected) simp
  have post: "recurse_items recurse file_types path post a = Some a" for a
    using assms(2) by (intro recurse_items_rejected) simp
  show ?thesis
    using assms(1) pre post by (simp add: recurse_items_append split: option.splits)
qed
section \<open>Claims\<close>

subsection \<open>C1: the identifier of the three URL shapes\<close>

text \<open>
  C1. The claim asks that a URL with the query parameter \<open>id=F\<close>, possibly followed by
  \<open>&...\<close>, gives \<open>F\<close>. The code does not always do so: it splits at every
  occurrence of the three characters \<open>id=\<close>, also inside the name of another
  parameter, and takes the last piece. Both URLs below carry \<open>id=1AbC_x-9\<close>; the code
  returns the value of the parameter that follows it.
\<close>

theorem extract_folder_id_later_parameter:
  "extract_folder_id (''https://drive.google.com/open?'' @ ''id='' @ ''1AbC_x-9'' @ ''&ouid=7'')
     = ''7''
   \<and> extract_folder_id
       (''https://drive.google.com/open?'' @ ''id='' @ ''1AbC_x-9'' @ ''&fbclid=IwAR0'')
     = ''IwAR0''
   \<and> ''7'' \<noteq> ''1AbC_x-9'' \<and> ''IwAR0'' \<noteq> ''1AbC_x-9''"
  by (simp add: extract_folder_id_def)

subsection \<open>C2: a failed public download without a session\<close>

text \<open>
  C2. When the public download raises and the handler has no session, \<open>download_file\<close>
  raises an exception whose message holds the message of the public failure and the
  request to authenticate. Nothing more is done to the outside world than the public
  attempt did: no call on a session is made.
\<close>

theorem download_file_without_session:
  assumes "download_file_public w h file_id file_name = (Inl public_error, trace)"
    and "service h = None"
  shows "download_file fuel w h file_id file_name
           = Some (Inl (Exception
                     (''File requires authentication. Public download failed: ''
                      @ message public_error @ [CHR 0x0A]
                      @ ''Please authenticate with OAuth2 to access private files.'')),
                   trace)
         \<and> contains (message public_error)
              (''File requires authentication. Public download failed: ''
               @ message public_error @ [CHR 0x0A]
               @ ''Please authenticate with OAuth2 to access private files.'')
         \<and> contains ''requires authentication''
              (''File requires authentication. Public download failed: ''
               @ message public_error @ [CHR 0x0A]
               @ ''Please authenticate with OAuth2 to access private files.'')
         \<and> list_all (\<lambda>ev. \<not> is_session_event ev) trace"
proof (intro conjI)
  show "download_file fuel w h file_id file_name
           = Some (Inl (Exception
                     (''File requires authentication. Public download failed: ''
                      @ message public_error @ [CHR 0x0A]
                      @ ''Please authenticate with OAuth2 to access private files.'')),
                   trace)"
    using assms by (simp add: download_file_def)
  show "contains (message public_error)
              (''File requires authentication. Public download failed: ''
               @ message public_error @ [CHR 0x0A]
               @ ''Please authenticate with OAuth2 to access private files.'')"
    by (rule contains_middle)
  have "contains ''requires authentication''
          (''File'' @ '' requires authentication. Public download failed: ''
             @ message public_error @ [CHR 0x0A]
             @ ''Please authenticate with OAuth2 to access private files.'')"
    by (simp add: startswith_append_self
          [of "''requires authentication''", simplified])
  then show "contains ''requires authentication''
              (''File requires authentication. Public download failed: ''
               @ message public_error @ [CHR 0x0A]
               @ ''Please authenticate with OAuth2 to access private files.'')"
    by simp
  show "list_all (\<lambda>ev. \<not> is_session_event ev) trace"
    using download_file_public_trace [of w h file_id file_name] assms(1) by simp
qed

theorem download_file_without_session_witness:
  "download_file 0 offline_world anonymous ''1AbC'' ''notes.pdf''
     = Some (Inl (Exception
               (''File requires authentication. Public download failed: timed out''
                @ [CHR 0x0A]
                @ ''Please authenticate with OAuth2 to access private files.'')),
             [Http_get ''https://drive.google.com/uc?export=download&id=1AbC''])"
proof -
  have pub: "download_file_public offline_world anonymous ''1AbC'' ''notes.pdf''
        = (Inl (Exception ''timed out''),
           [Http_get ''https://drive.google.com/uc?export=download&id=1AbC''])"
    by (simp add: download_file_public_def offline_world_def download_url_def)
  have anon: "service anonymous = None"
    by (simp add: anonymous_def)
  show ?thesis
    using download_file_without_session [OF pub anon, of 0] by simp
qed

subsection \<open>C3: one failed download does not stop the batch\<close>

text \<open>
  C3. When the listing yields \<open>N\<close> files, the download of exactly one of them raises
  and the downloads of the others return, \<open>download_folder\<close> returns: the exception is
  not raised again, and the result holds \<open>N - 1\<close> records, the listed records of the
  other files in their order, each with the local path its download returned.
\<close>

theorem download_folder_skips_failure:
  assumes "(if recursive then list_folder_recursive fuel h folder_url None
            else Some (list_folder_files w h folder_url None))
           = Some (Inr (pre @ f # post), trace)"
    and "download_file fuel w h (fr_id f) (fr_name f) = Some (Inl e, tf)"
    and "\<forall>g\<in>set (pre @ post).
           \<exists>p t. download_file fuel w h (fr_id g) (fr_name g) = Some (Inr p, t)"
  shows "\<exists>results trace'.
           download_folder fuel w h folder_url recursive = Some (Inr results, trace')
           \<and> length results = length (pre @ f # post) - 1
           \<and> map file_record.truncate results = pre @ post
           \<and> (\<forall>r\<in>set results. \<exists>t. download_file fuel w h (fr_id r) (fr_name r)
                                       = Some (Inr (local_path r), t))"
proof -
  have pre_ok: "\<forall>g\<in>set pre. \<exists>p t. download_file fuel w h (fr_id g) (fr_name g) = Some (Inr p, t)"
    and post_ok: "\<forall>g\<in>set post. \<exists>p t. download_file fuel w h (fr_id g) (fr_name g) = Some (Inr p, t)"
    using assms(3) by auto
  from download_each_all [OF pre_ok, of "([], trace)"] obtain rs1 t1 where
    rs1: "download_each fuel w h pre ([], trace) = Some (rs1, t1)"
      "map file_record.truncate rs1 = pre"
      "\<forall>r\<in>set rs1. \<exists>t. download_file fuel w h (fr_id r) (fr_name r)
                          = Some (Inr (local_path r), t)"
    by auto
  from download_each_all [OF post_ok, of "(rs1, t1 @ tf)"] obtain rs2 t2 where
    rs2: "download_each fuel w h post (rs1, t1 @ tf) = Some (rs1 @ rs2, t2)"
      "map file_record.truncate rs2 = post"
      "\<forall>r\<in>set rs2. \<exists>t. download_file fuel w h (fr_id r) (fr_name r)
                          = Some (Inr (local_path r), t)"
    by auto
  have "download_each fuel w h (f # post) (rs1, t1) = Some (rs1 @ rs2, t2)"
    using assms(2) rs2(1) by simp
  then have "download_each fuel w h (pre @ f # post) ([], trace) = Some (rs1 @ rs2, t2)"
    using rs1(1) by (simp add: download_each_append)
  then have a: "download_folder fuel w h folder_url recursive = Some (Inr (rs1 @ rs2), t2)"
    using assms(1) by (simp add: download_folder_def)
  have b: "map file_record.truncate (rs1 @ rs2) = pre @ post"
    using rs1(2) rs2(2) by simp
  have "length (map file_record.truncate (rs1 @ rs2)) = length (pre @ post)"
    using b by simp
  then have c: "length (rs1 @ rs2) = length (pre @ f # post) - 1"
    by simp
  have d: "\<forall>r\<in>set (rs1 @ rs2). \<exists>t. download_file fuel w h (fr_id r) (fr_name r)
                                            = Some (Inr (local_path r), t)"
    using rs1(3) rs2(3) by auto
  show ?thesis
    by (rule exI [of _ "rs1 @ rs2"], rule exI [of _ t2]) (use a b c d in blast)
qed

theorem download_folder_skips_failure_witness:
  "\<exists>results trace'.
     download_folder 3 one_public_world two_files_handler ''root'' True
       = Some (Inr results, trace')
     \<and> length results = 1
     \<and> map file_record.truncate results = [tree_record [] item_a]
     \<and> map local_path results = [''/tmp/a.pdf'']"
proof -
  have listing:
    "(if True then list_folder_recursive 3 two_files_handler ''root'' None
      else Some (list_folder_files one_public_world two_files_handler ''root'' None))
     = Some (Inr ([tree_record [] item_a] @ tree_record [] item_b # []),
             [Files_list (parents_query ''root'')])"
    by (simp add: list_folder_recursive_def two_files_handler_def two_files_service_def
          extract_folder_id_def eval_nat_numeral item_a_def item_b_def folder_mime_def
          matches_filter_def)
  have b: "download_file 3 one_public_world two_files_handler
             (fr_id (tree_record [] item_b)) (fr_name (tree_record [] item_b))
           = Some (Inl (Exception ''forbidden''),
                   [Http_get (download_url ''fileB''), Files_get ''fileB''])"
    by (simp add: download_file_def download_file_public_def one_public_world_def
          two_files_handler_def two_files_service_def tree_record_def item_b_def
          download_url_def)
  have a: "download_file 3 one_public_world two_files_handler
             (fr_id (tree_record [] item_a)) (fr_name (tree_record [] item_a))
           = Some (Inr ''/tmp/a.pdf'',
                   [Http_get (download_url ''fileA''), Open_wb ''/tmp/a.pdf'',
                    Fwrite ''/tmp/a.pdf'' ''data''])"
    by (simp add: download_file_def download_file_public_def confirm_download_def
          save_response_def one_public_world_def two_files_handler_def tree_record_def
          item_a_def download_url_def path_join_def endswith_def lower_def lower_char_def upper_letters_def lower_letters_def
          Let_def)
  have others: "\<forall>g\<in>set ([tree_record [] item_a] @ []).
           \<exists>p t. download_file 3 one_public_world two_files_handler (fr_id g) (fr_name g)
                   = Some (Inr p, t)"
    using a by simp
  from download_folder_skips_failure [OF listing b others]
  obtain results trace' where r:
    "download_folder 3 one_public_world two_files_handler ''root'' True
       = Some (Inr results, trace')"
    "length results = 1"
    "map file_record.truncate results = [tree_record [] item_a]"
    "\<forall>r\<in>set results. \<exists>t. download_file 3 one_public_world two_files_handler
                               (fr_id r) (fr_name r) = Some (Inr (local_path r), t)"
    by auto
  from r(2) obtain x where x: "results = [x]"
    by (cases results) auto
  have "file_record.truncate x = tree_record [] item_a"
    using r(3) x by simp
  then have "fr_id x = fr_id (tree_record [] item_a)" "fr_name x = fr_name (tree_record [] item_a)"
    using truncate_fields [of x] by simp_all
  then have "local_path x = ''/tmp/a.pdf''"
    using r(4) x a by auto
  then show ?thesis
    using r(1,2,3) x by simp
qed

subsection \<open>C4: a PDF filter lists only PDF names\<close>

text \<open>
  C4. With the MIME-type filter \<open>['application/pdf']\<close> (which is also the default of
  the public listing), every record the public listing returns has a name that ends in
  \<open>.pdf\<close> once lowered, and carries the MIME type \<open>application/pdf\<close>.
\<close>

theorem public_listing_only_pdf:
  assumes "file_types = None \<or> file_types = Some [''application/pdf'']"
    and "fst (list_folder_files_public w folder_url file_types) = Inr files"
    and "f \<in> set files"
  shows "endswith (lower (fr_name f)) ''.pdf'' \<and> fr_mimeType f = ''application/pdf''"
proof -
  let ?P = "\<lambda>f. endswith (lower (fr_name f)) ''.pdf'' \<and> fr_mimeType f = ''application/pdf''"
  let ?folder_id = "extract_folder_id folder_url"
  have allowed: "allowed_extensions_of
                   (case file_types of None \<Rightarrow> [''application/pdf''] | Some ts \<Rightarrow> ts)
                 = [''.pdf'']"
    using assms(1) allowed_extensions_pdf by auto
  have inv: "\<forall>f\<in>set (fst (scan_candidates w ?folder_id [''.pdf''] ids ([], trace))). ?P f"
    for ids trace
    by (rule scan_candidates_invariant) (simp_all add: public_record_def)
  from assms(2) have
    "\<exists>found. fst (scan_candidates w ?folder_id [''.pdf''] found
                     ([], [Http_get (folder_view_url ?folder_id)])) = files"
    unfolding list_folder_files_public_def Let_def allowed
    by (auto split: sum.splits if_splits)
  then show ?thesis
    using inv assms(3) by blast
qed

theorem public_listing_only_pdf_witness:
  "fst (list_folder_files_public scraped_world
          ''https://drive.google.com/drive/folders/FOLDER1?usp=sharing'' None)
     = Inr [public_record ''fileA'' ''Report.PDF'']
   \<and> endswith (lower ''Report.PDF'') ''.pdf''
   \<and> fr_mimeType (public_record ''fileA'' ''Report.PDF'') = ''application/pdf''"
proof -
  have id: "extract_folder_id ''https://drive.google.com/drive/folders/FOLDER1?usp=sharing''
            = ''FOLDER1''"
    by (simp add: extract_folder_id_def)
  have name_a: "derive_filename scraped_world ''fileA'' ''page A'' = ''Report.PDF''"
    by (simp add: derive_filename_def scraped_world_def falsy_def strip_def is_space_def)
  have name_b: "derive_filename scraped_world ''fileB'' ''page B'' = ''notes.txt''"
    by (simp add: derive_filename_def scraped_world_def falsy_def strip_def is_space_def)
  have found: "extract_candidate_ids scraped_world ''folder page'' = Inr [''fileA'', ''fileB'']"
    by (simp add: extract_candidate_ids_def scraped_world_def file_link_patterns_def
          set_update_def set_add_def)
  have get: "requests_get scraped_world (folder_view_url ''FOLDER1'') = Inr (page_of ''folder page'')"
    "requests_get scraped_world (file_info_url ''fileA'') = Inr (page_of ''page A'')"
    "requests_get scraped_world (file_info_url ''fileB'') = Inr (page_of ''page B'')"
    by (simp_all add: scraped_world_def folder_view_url_def file_info_url_def)
  have low: "lower ''Report.PDF'' = ''report.pdf''" "lower ''notes.txt'' = ''notes.txt''"
    by (simp_all add: lower_def lower_char_def upper_letters_def lower_letters_def)
  have run: "fst (list_folder_files_public scraped_world
          ''https://drive.google.com/drive/folders/FOLDER1?usp=sharing'' None)
     = Inr [public_record ''fileA'' ''Report.PDF'']"
    by (simp add: list_folder_files_public_def id get found name_a name_b low page_of_def
          ext_map_def endswith_def Let_def)
  have mem: "public_record ''fileA'' ''Report.PDF'' \<in> set [public_record ''fileA'' ''Report.PDF'']"
    by simp
  have "endswith (lower (fr_name (public_record ''fileA'' ''Report.PDF''))) ''.pdf''
        \<and> fr_mimeType (public_record ''fileA'' ''Report.PDF'') = ''application/pdf''"
    using public_listing_only_pdf [OF disjI1 [OF refl] run mem] .
  then show ?thesis
    using run by (simp add: public_record_def)
qed

subsection \<open>C5: provider-native documents are exported as PDF\<close>

text \<open>
  C5. On the authenticated path (the public download has raised and there is a
  session), for a file whose MIME type starts with \<open>application/vnd.google-apps\<close>:
  \<^item> if the type contains \<open>document\<close>, the request made is a PDF export, the target is
    the temporary directory joined with the requested name after \<open>.gdoc\<close> has been
    replaced by \<open>.pdf\<close>, and for a requested name ending in \<open>.gdoc\<close> that target ends
    in \<open>.pdf\<close>; the download returns that target as soon as the file can be opened
    and the transfer ends within the fuel;
  \<^item> any other such type raises \<open>Unsupported Google Apps type\<close>.
\<close>

theorem native_document_export:
  assumes "download_file_public w h file_id file_name = (Inl public_error, trace)"
    and "service h = Some svc"
    and "files_get svc file_id = Inr mime_type"
    and "startswith mime_type ''application/vnd.google-apps''"
  shows "(contains ''document'' mime_type \<longrightarrow>
            (\<forall>path trace'.
               download_file fuel w h file_id file_name = Some (Inr path, trace') \<longrightarrow>
                 path = path_join (temp_dir h) (replace ''.gdoc'' ''.pdf'' file_name)
                 \<and> Media_request (Export_media file_id ''application/pdf'') \<in> set trace')
            \<and> (endswith file_name ''.gdoc'' \<longrightarrow>
                 endswith (path_join (temp_dir h) (replace ''.gdoc'' ''.pdf'' file_name)) ''.pdf'')
            \<and> (\<forall>k. open_wb w (path_join (temp_dir h) (replace ''.gdoc'' ''.pdf'' file_name)) = None
                   \<and> (\<forall>i<k. next_chunk svc (Export_media file_id ''application/pdf'') i = Inr False)
                   \<and> next_chunk svc (Export_media file_id ''application/pdf'') k = Inr True
                   \<and> k < fuel \<longrightarrow>
                 (\<exists>trace'. download_file fuel w h file_id file_name
                    = Some (Inr (path_join (temp_dir h) (replace ''.gdoc'' ''.pdf'' file_name)),
                            trace'))))
         \<and> (\<not> contains ''document'' mime_type \<longrightarrow>
              download_file fuel w h file_id file_name
                = Some (Inl (Exception (''Unsupported Google Apps type: '' @ mime_type)),
                        trace @ [Files_get file_id]))"
proof (intro conjI impI allI)
  fix path trace'
  assume doc: "contains ''document'' mime_type"
    and ret: "download_file fuel w h file_id file_name = Some (Inr path, trace')"
  have "fetch_media fuel w h svc (Export_media file_id ''application/pdf'')
          (replace ''.gdoc'' ''.pdf'' file_name) (trace @ [Files_get file_id])
        = Some (Inr path, trace')"
    using assms doc ret by (simp add: download_file_def)
  from fetch_media_returns [OF this]
  show "path = path_join (temp_dir h) (replace ''.gdoc'' ''.pdf'' file_name)"
    and "Media_request (Export_media file_id ''application/pdf'') \<in> set trace'"
    by simp_all
next
  assume "endswith file_name ''.gdoc''"
  then show "endswith (path_join (temp_dir h) (replace ''.gdoc'' ''.pdf'' file_name)) ''.pdf''"
    by (intro path_join_suffix replace_gdoc_suffix)
next
  fix k
  assume doc: "contains ''document'' mime_type"
    and ok: "open_wb w (path_join (temp_dir h) (replace ''.gdoc'' ''.pdf'' file_name)) = None
             \<and> (\<forall>i<k. next_chunk svc (Export_media file_id ''application/pdf'') i = Inr False)
             \<and> next_chunk svc (Export_media file_id ''application/pdf'') k = Inr True
             \<and> k < fuel"
  have "\<exists>trace'. fetch_media fuel w h svc (Export_media file_id ''application/pdf'')
          (replace ''.gdoc'' ''.pdf'' file_name) (trace @ [Files_get file_id])
        = Some (Inr (path_join (temp_dir h) (replace ''.gdoc'' ''.pdf'' file_name)), trace')"
    using ok by (intro fetch_media_completes [of _ _ _ k]) auto
  then show "\<exists>trace'. download_file fuel w h file_id file_name
                    = Some (Inr (path_join (temp_dir h) (replace ''.gdoc'' ''.pdf'' file_name)),
                            trace')"
    using assms doc by (simp add: download_file_def)
next
  assume "\<not> contains ''document'' mime_type"
  then show "download_file fuel w h file_id file_name
                = Some (Inl (Exception (''Unsupported Google Apps type: '' @ mime_type)),
                        trace @ [Files_get file_id])"
    using assms by (simp add: download_file_def)
qed

theorem native_document_export_witness:
  "download_file 5 offline_world docs_handler ''doc1'' ''report.gdoc''
     = Some (Inr ''/tmp/report.pdf'',
             [Http_get ''https://drive.google.com/uc?export=download&id=doc1'',
              Files_get ''doc1'',
              Media_request (Export_media ''doc1'' ''application/pdf''),
              Open_wb ''/tmp/report.pdf'',
              Next_chunk (Export_media ''doc1'' ''application/pdf'') 0,
              Next_chunk (Export_media ''doc1'' ''application/pdf'') 1])
   \<and> endswith ''/tmp/report.pdf'' ''.pdf''
   \<and> download_file 5 offline_world docs_handler ''sheet1'' ''budget.gsheet''
     = Some (Inl (Exception
               ''Unsupported Google Apps type: application/vnd.google-apps.spreadsheet''),
             [Http_get ''https://drive.google.com/uc?export=download&id=sheet1'',
              Files_get ''sheet1''])"
proof -
  have pub: "download_file_public offline_world docs_handler ''doc1'' ''report.gdoc''
        = (Inl (Exception ''timed out''),
           [Http_get ''https://drive.google.com/uc?export=download&id=doc1''])"
    by (simp add: download_file_public_def offline_world_def download_url_def)
  have pub2: "download_file_public offline_world docs_handler ''sheet1'' ''budget.gsheet''
        = (Inl (Exception ''timed out''),
           [Http_get ''https://drive.google.com/uc?export=download&id=sheet1''])"
    by (simp add: download_file_public_def offline_world_def download_url_def)
  have svc: "service docs_handler = Some docs_service"
    by (simp add: docs_handler_def)
  have m1: "files_get docs_service ''doc1'' = Inr ''application/vnd.google-apps.document''"
    and m2: "files_get docs_service ''sheet1'' = Inr ''application/vnd.google-apps.spreadsheet''"
    by (simp_all add: docs_service_def)
  have s1: "startswith ''application/vnd.google-apps.document'' ''application/vnd.google-apps''"
    and s2: "startswith ''application/vnd.google-apps.spreadsheet'' ''application/vnd.google-apps''"
    by simp_all
  have run: "download_file 5 offline_world docs_handler ''doc1'' ''report.gdoc''
     = Some (Inr ''/tmp/report.pdf'',
             [Http_get ''https://drive.google.com/uc?export=download&id=doc1'',
              Files_get ''doc1'',
              Media_request (Export_media ''doc1'' ''application/pdf''),
              Open_wb ''/tmp/report.pdf'',
              Next_chunk (Export_media ''doc1'' ''application/pdf'') 0,
              Next_chunk (Export_media ''doc1'' ''application/pdf'') 1])"
    by (simp add: download_file_def pub svc m1)
       (simp add: fetch_media_def Let_def path_join_def endswith_def
          docs_handler_def docs_service_def offline_world_def eval_nat_numeral)
  have a: "endswith (path_join (temp_dir docs_handler)
                       (replace ''.gdoc'' ''.pdf'' ''report.gdoc'')) ''.pdf''"
    using native_document_export [OF pub svc m1 s1, of 5] by (simp add: endswith_def)
  have b: "download_file 5 offline_world docs_handler ''sheet1'' ''budget.gsheet''
     = Some (Inl (Exception
               ''Unsupported Google Apps type: application/vnd.google-apps.spreadsheet''),
             [Http_get ''https://drive.google.com/uc?export=download&id=sheet1'',
              Files_get ''sheet1''])"
    using native_document_export [OF pub2 svc m2 s2, of 5] by simp
  from run a b show ?thesis
    by (simp add: path_join_def endswith_def docs_handler_def)
qed

subsection \<open>C6: a page without candidates, and a page that cannot be fetched\<close>

text \<open>
  C6. When the folder page is fetched with status 200 and the extraction yields no
  candidate identifier (or none but the folder's own), the public listing returns the
  empty list and raises nothing. When the page is fetched with any other status, the
  listing raises: the message says that the folder is not publicly accessible and gives
  the status.
\<close>

theorem public_listing_without_candidates:
  "(requests_get w (folder_view_url (extract_folder_id folder_url)) = Inr response
      \<and> status_code response = 200
      \<and> extract_candidate_ids w (r_text response) = Inr found
      \<and> set found \<subseteq> {extract_folder_id folder_url}
    \<longrightarrow> fst (list_folder_files_public w folder_url file_types) = Inr [])
   \<and> (requests_get w (folder_view_url (extract_folder_id folder_url)) = Inr response
      \<and> status_code response \<noteq> 200
    \<longrightarrow> fst (list_folder_files_public w folder_url file_types)
          = Inl (Exception
                   (''Folder is not publicly accessible or error occurred: ''
                    @ ''Cannot access folder. Status: '' @ str_int (status_code response))))"
proof (intro conjI impI)
  assume a: "requests_get w (folder_view_url (extract_folder_id folder_url)) = Inr response
      \<and> status_code response = 200
      \<and> extract_candidate_ids w (r_text response) = Inr found
      \<and> set found \<subseteq> {extract_folder_id folder_url}"
  then have "scan_candidates w (extract_folder_id folder_url) allowed found acc = acc"
    for allowed acc
    by (intro scan_candidates_skip_folder) simp
  then show "fst (list_folder_files_public w folder_url file_types) = Inr []"
    using a by (simp add: list_folder_files_public_def Let_def)
next
  assume "requests_get w (folder_view_url (extract_folder_id folder_url)) = Inr response
      \<and> status_code response \<noteq> 200"
  then show "fst (list_folder_files_public w folder_url file_types)
          = Inl (Exception
                   (''Folder is not publicly accessible or error occurred: ''
                    @ ''Cannot access folder. Status: '' @ str_int (status_code response)))"
    by (simp add: list_folder_files_public_def Let_def public_failure_def)
qed

theorem public_listing_without_candidates_witness:
  "fst (list_folder_files_public empty_page_world ''FOLDER1'' None) = Inr []
   \<and> fst (list_folder_files_public forbidden_world ''FOLDER1'' None)
       = Inl (Exception
                ''Folder is not publicly accessible or error occurred: Cannot access folder. Status: 403'')"
proof -
  have id: "extract_folder_id ''FOLDER1'' = ''FOLDER1''"
    by (simp add: extract_folder_id_def)
  have a: "requests_get empty_page_world (folder_view_url (extract_folder_id ''FOLDER1''))
             = Inr (page_of [])
           \<and> status_code (page_of []) = 200
           \<and> extract_candidate_ids empty_page_world (r_text (page_of [])) = Inr []
           \<and> set [] \<subseteq> {extract_folder_id ''FOLDER1''}"
    by (simp add: empty_page_world_def page_of_def extract_candidate_ids_def
          file_link_patterns_def no_matches_def set_update_def)
  have b: "requests_get forbidden_world (folder_view_url (extract_folder_id ''FOLDER1''))
             = Inr \<lparr>status_code = 403, r_text = ''Forbidden'',
                    r_url = folder_view_url ''FOLDER1'', r_content = ''Forbidden''\<rparr>
           \<and> status_code \<lparr>status_code = 403, r_text = ''Forbidden'',
                    r_url = folder_view_url ''FOLDER1'', r_content = ''Forbidden''\<rparr> \<noteq> 200"
    by (simp add: forbidden_world_def id)
  have s: "str_int 403 = ''403''"
    by (simp add: str_int_def digit_char_def)
  from public_listing_without_candidates
         [of empty_page_world "''FOLDER1''" "page_of []" "[]" None, THEN conjunct1, rule_format, OF a]
       public_listing_without_candidates
         [of forbidden_world "''FOLDER1''" _ "[]" None, THEN conjunct2, rule_format, OF b]
  show ?thesis
    by (simp add: s)
qed

subsection \<open>C7: one subfolder with one matching file\<close>

text \<open>
  C7. The folder holds exactly one subfolder, and beside it at most files that the type
  filter rejects; the subfolder holds exactly one file that matches the filter, and
  beside it at most files that the filter rejects. Then the authenticated recursive
  listing (two levels of recursion suffice) returns exactly one record, that of the
  matching file, and its \<open>path\<close> is the name of the subfolder, a slash, and the name of
  the file. The provider's names are not empty; the name of the subfolder is taken so.
\<close>

theorem one_subfolder_one_file:
  assumes "service h = Some svc"
    and "files_list svc (parents_query (extract_folder_id folder_url))
         = Inr (beside_before @ sub # beside_after)"
    and "item_mimeType sub = folder_mime"
    and "\<forall>it\<in>set (beside_before @ beside_after).
           item_mimeType it \<noteq> folder_mime \<and> \<not> matches_filter file_types (item_mimeType it)"
    and "files_list svc (parents_query (item_id sub)) = Inr (before @ f # after)"
    and "item_mimeType f \<noteq> folder_mime"
    and "matches_filter file_types (item_mimeType f)"
    and "\<forall>it\<in>set (before @ after).
           item_mimeType it \<noteq> folder_mime \<and> \<not> matches_filter file_types (item_mimeType it)"
    and "item_name sub \<noteq> []"
  shows "\<exists>record trace.
           list_folder_recursive (Suc (Suc depth)) h folder_url file_types
             = Some (Inr [record], trace)
           \<and> fr_path record = Some (item_name sub @ ''/'' @ item_name f)
           \<and> fr_id record = item_id f \<and> fr_name record = item_name f"
proof -
  let ?root = "parents_query (extract_folder_id folder_url)"
  let ?sub = "parents_query (item_id sub)"
  have inner: "recurse_folder (Suc depth) svc file_types (item_id sub) (item_name sub)
                 ([], [Files_list ?root])
               = Some ([tree_record (item_name sub) f], [Files_list ?root, Files_list ?sub])"
    using assms(5) recurse_items_one_match [OF assms(6,7,8)] by simp
  have "recurse_folder (Suc (Suc depth)) svc file_types (extract_folder_id folder_url) []
          ([], [])
        = recurse_folder (Suc depth) svc file_types (item_id sub) (child_path [] (item_name sub))
            ([], [Files_list ?root])"
    using assms(2) recurse_items_one_folder [OF assms(3,4)] by simp
  then have "recurse_folder (Suc (Suc depth)) svc file_types (extract_folder_id folder_url) []
          ([], [])
        = Some ([tree_record (item_name sub) f], [Files_list ?root, Files_list ?sub])"
    using inner by (simp add: child_path_def)
  then have "list_folder_recursive (Suc (Suc depth)) h folder_url file_types
             = Some (Inr [tree_record (item_name sub) f], [Files_list ?root, Files_list ?sub])"
    using assms(1) by (simp add: list_folder_recursive_def)
  moreover have "fr_path (tree_record (item_name sub) f)
                 = Some (item_name sub @ ''/'' @ item_name f)"
    using assms(9) by (simp add: tree_record_def child_path_def)
  moreover have "fr_id (tree_record (item_name sub) f) = item_id f"
    "fr_name (tree_record (item_name sub) f) = item_name f"
    by (simp_all add: tree_record_def)
  ultimately show ?thesis by blast
qed

text \<open>
  The folder \<open>shelf\<close> with the filter \<open>['application/pdf']\<close>: the text file and the
  image, beside the subfolder and inside it, are rejected, and the one record is that of
  \<open>papers/a.pdf\<close>.
\<close>

theorem one_subfolder_one_file_witness:
  "\<exists>record trace.
     list_folder_recursive 2 tree_handler ''shelf'' (Some [''application/pdf''])
       = Some (Inr [record], trace)
     \<and> fr_path record = Some ''papers/a.pdf''
     \<and> fr_id record = ''fileA'' \<and> fr_name record = ''a.pdf''"
proof -
  have svc: "service tree_handler = Some tree_service"
    by (simp add: tree_handler_def)
  have id: "extract_folder_id ''shelf'' = ''shelf''"
    by (simp add: extract_folder_id_def)
  have q1: "files_list tree_service (parents_query (extract_folder_id ''shelf''))
            = Inr ([item_t] @ folder_z # [item_p])"
    by (simp add: id tree_service_def parents_query_def)
  have q2: "files_list tree_service (parents_query (item_id folder_z))
            = Inr ([item_t] @ item_a # [item_p])"
    by (simp add: tree_service_def parents_query_def folder_z_def)
  have m: "item_mimeType folder_z = folder_mime" "item_mimeType item_a \<noteq> folder_mime"
    "matches_filter (Some [''application/pdf'']) (item_mimeType item_a)"
    "item_name folder_z \<noteq> []"
    by (simp_all add: folder_z_def item_a_def folder_mime_def matches_filter_def)
  have others: "\<forall>it\<in>set ([item_t] @ [item_p]).
           item_mimeType it \<noteq> folder_mime
           \<and> \<not> matches_filter (Some [''application/pdf'']) (item_mimeType it)"
    by (simp add: item_t_def item_p_def folder_mime_def matches_filter_def)
  from one_subfolder_one_file [OF svc q1 m(1) others q2 m(2) m(3) others m(4), of 0]
  show ?thesis
    by (auto simp: eval_nat_numeral folder_z_def item_a_def)
qed

subsection \<open>C8: a failing query abandons one branch only\<close>

text \<open>
  C8. In the recursive listing, a query that raises is caught in the frame of the folder
  it was made for: that frame returns with the records collected so far unchanged, the
  loop of the parent goes on with the next item, no call ever loses a record collected
  before it, and the listing of a handler with a session never raises: when the query
  for the listed folder itself fails, the listing returns the empty list.
\<close>

theorem query_failure_is_contained:
  "(files_list svc (parents_query folder_id) = Inl e \<longrightarrow>
      recurse_folder (Suc depth) svc file_types folder_id path acc
      = Some (fst acc, snd acc @ [Files_list (parents_query folder_id)]))
   \<and> (item_mimeType it = folder_mime \<and> files_list svc (parents_query (item_id it)) = Inl e \<longrightarrow>
      recurse_items (recurse_folder (Suc depth) svc file_types) file_types path (it # items) acc
      = recurse_items (recurse_folder (Suc depth) svc file_types) file_types path items
          (fst acc, snd acc @ [Files_list (parents_query (item_id it))]))
   \<and> (recurse_folder depth svc file_types folder_id path acc = Some acc' \<longrightarrow>
      (\<exists>more. fst acc' = fst acc @ more))
   \<and> (service h = Some svc \<longrightarrow>
      (\<forall>x trace. list_folder_recursive depth h folder_url file_types \<noteq> Some (Inl x, trace)))
   \<and> (service h = Some svc
      \<and> files_list svc (parents_query (extract_folder_id folder_url)) = Inl e \<longrightarrow>
      list_folder_recursive (Suc depth) h folder_url file_types
      = Some (Inr [], [Files_list (parents_query (extract_folder_id folder_url))]))"
proof (intro conjI impI allI)
  assume "files_list svc (parents_query folder_id) = Inl e"
  then show "recurse_folder (Suc depth) svc file_types folder_id path acc
      = Some (fst acc, snd acc @ [Files_list (parents_query folder_id)])"
    by simp
next
  assume "item_mimeType it = folder_mime \<and> files_list svc (parents_query (item_id it)) = Inl e"
  then show "recurse_items (recurse_folder (Suc depth) svc file_types) file_types path
               (it # items) acc
      = recurse_items (recurse_folder (Suc depth) svc file_types) file_types path items
          (fst acc, snd acc @ [Files_list (parents_query (item_id it))])"
    by simp
next
  assume "recurse_folder depth svc file_types folder_id path acc = Some acc'"
  then show "\<exists>more. fst acc' = fst acc @ more"
    by (rule recurse_folder_extends)
next
  fix x trace
  assume "service h = Some svc"
  then show "list_folder_recursive depth h folder_url file_types \<noteq> Some (Inl x, trace)"
    by (simp add: list_folder_recursive_def split: option.splits)
next
  assume "service h = Some svc
      \<and> files_list svc (parents_query (extract_folder_id folder_url)) = Inl e"
  then show "list_folder_recursive (Suc depth) h folder_url file_types
      = Some (Inr [], [Files_list (parents_query (extract_folder_id folder_url))])"
    by (simp add: list_folder_recursive_def)
qed

theorem query_failure_is_contained_witness:
  "list_folder_recursive 2 tree_handler ''root'' None
     = Some (Inr [tree_record ''docs'' item_a],
             [Files_list (parents_query ''root''), Files_list (parents_query ''subX''),
              Files_list (parents_query ''subY'')])
   \<and> files_list tree_service (parents_query ''subX'') = Inl (Exception ''quota exceeded'')"
proof -
  have q: "files_list tree_service (parents_query ''root'') = Inr [folder_x, folder_y]"
    "files_list tree_service (parents_query ''subX'') = Inl (Exception ''quota exceeded'')"
    "files_list tree_service (parents_query ''subY'') = Inr [item_a]"
    by (simp_all add: tree_service_def parents_query_def)
  have x: "item_mimeType folder_x = folder_mime
           \<and> files_list tree_service (parents_query (item_id folder_x))
               = Inl (Exception ''quota exceeded'')"
    using q(2) by (simp add: folder_x_def)
  have skip:
    "recurse_items (recurse_folder (Suc 0) tree_service None) None [] (folder_x # [folder_y])
       ([], [Files_list (parents_query ''root'')])
     = recurse_items (recurse_folder (Suc 0) tree_service None) None [] [folder_y]
         ([], [Files_list (parents_query ''root''), Files_list (parents_query ''subX'')])"
    using query_failure_is_contained
            [of tree_service _ "Exception ''quota exceeded''" 0 None "[]"
                "([], [Files_list (parents_query ''root'')])" folder_x "[folder_y]",
             THEN conjunct2, THEN conjunct1, rule_format, OF x]
    by (simp add: folder_x_def)
  have rest:
    "recurse_items (recurse_folder (Suc 0) tree_service None) None [] [folder_y]
       ([], [Files_list (parents_query ''root''), Files_list (parents_query ''subX'')])
     = Some ([tree_record ''docs'' item_a],
             [Files_list (parents_query ''root''), Files_list (parents_query ''subX''),
              Files_list (parents_query ''subY'')])"
    by (simp add: q folder_y_def item_a_def folder_mime_def child_path_def matches_filter_def)
  have id: "extract_folder_id ''root'' = ''root''"
    by (simp add: extract_folder_id_def)
  have "recurse_folder 2 tree_service None ''root'' [] ([], [])
        = Some ([tree_record ''docs'' item_a],
             [Files_list (parents_query ''root''), Files_list (parents_query ''subX''),
              Files_list (parents_query ''subY'')])"
    using skip rest by (simp add: eval_nat_numeral q(1) folder_x_def)
  then show ?thesis
    using q(2) by (simp add: list_folder_recursive_def tree_handler_def id)
qed

subsection \<open>C9: the last scraping pass adds no record\<close>

text \<open>
  C9. The sharing-mode page of the folder is requested exactly when the list of files is
  empty after the candidates have been scanned, the warning is printed only then, and
  the pass adds no record: two worlds that differ only in what that page answers, and in
  what the PDF-reference pattern finds, give the same result.
\<close>

theorem last_resort_adds_nothing:
  "(same_but_last_resort w w' (extract_folder_id folder_url) \<longrightarrow>
      fst (list_folder_files_public w' folder_url file_types)
      = fst (list_folder_files_public w folder_url file_types))
   \<and> (Http_get (api_url (extract_folder_id folder_url))
        \<in> set (snd (list_folder_files_public w folder_url file_types))
      \<longleftrightarrow> fst (list_folder_files_public w folder_url file_types) = Inr [])
   \<and> (Pdf_warning \<in> set (snd (list_folder_files_public w folder_url file_types)) \<longrightarrow>
      fst (list_folder_files_public w folder_url file_types) = Inr [])"
proof (intro conjI impI)
  let ?folder_id = "extract_folder_id folder_url"
  assume same: "same_but_last_resort w w' ?folder_id"
  have a: "requests_get w' (folder_view_url ?folder_id) = requests_get w (folder_view_url ?folder_id)"
    using same folder_view_url_not_api by (simp add: same_but_last_resort_def)
  have b: "extract_candidate_ids w' = extract_candidate_ids w"
    using extract_candidate_ids_same [OF same] by (intro ext)
  have c: "scan_candidates w' ?folder_id = scan_candidates w ?folder_id"
    using scan_candidates_same [OF same] by (intro ext)
  show "fst (list_folder_files_public w' folder_url file_types)
        = fst (list_folder_files_public w folder_url file_types)"
    unfolding list_folder_files_public_def Let_def a b c
    by (simp split: sum.splits)
next
  let ?folder_id = "extract_folder_id folder_url"
  let ?start = "[Http_get (folder_view_url ?folder_id)]"
  have scanned: "ev \<in> set (snd (scan_candidates w ?folder_id allowed found ([], ?start))) \<Longrightarrow>
                 ev \<noteq> Http_get (api_url ?folder_id) \<and> ev \<noteq> Pdf_warning"
    for ev allowed found
    using scan_candidates_trace [of ev w ?folder_id allowed found "([], ?start)"]
      folder_view_url_not_api [of ?folder_id] file_info_url_not_api [of _ ?folder_id]
    by auto
  show "Http_get (api_url ?folder_id)
          \<in> set (snd (list_folder_files_public w folder_url file_types))
        \<longleftrightarrow> fst (list_folder_files_public w folder_url file_types) = Inr []"
    unfolding list_folder_files_public_def Let_def
    using scanned folder_view_url_not_api [of ?folder_id]
    by (auto simp: last_resort_def split: sum.splits)
  show "fst (list_folder_files_public w folder_url file_types) = Inr []"
    if "Pdf_warning \<in> set (snd (list_folder_files_public w folder_url file_types))"
    using that scanned
    unfolding list_folder_files_public_def Let_def
    by (auto split: sum.splits if_splits)
qed

theorem last_resort_adds_nothing_witness:
  "fst (list_folder_files_public pdf_hint_world ''FOLDER1'' None) = Inr []
   \<and> fst (list_folder_files_public empty_page_world ''FOLDER1'' None) = Inr []
   \<and> Pdf_warning \<in> set (snd (list_folder_files_public pdf_hint_world ''FOLDER1'' None))
   \<and> Pdf_warning \<notin> set (snd (list_folder_files_public empty_page_world ''FOLDER1'' None))"
proof -
  have id: "extract_folder_id ''FOLDER1'' = ''FOLDER1''"
    by (simp add: extract_folder_id_def)
  have same: "same_but_last_resort empty_page_world pdf_hint_world (extract_folder_id ''FOLDER1'')"
    by (simp add: same_but_last_resort_def id pdf_hint_world_def empty_page_world_def
          no_matches_def fun_eq_iff)
  have ex_plain: "extract_candidate_ids empty_page_world [] = Inr []"
    by (simp add: extract_candidate_ids_def file_link_patterns_def empty_page_world_def
          no_matches_def set_update_def)
  have ex_hint: "extract_candidate_ids pdf_hint_world [] = Inr []"
    by (simp add: extract_candidate_ids_def file_link_patterns_def pdf_hint_world_def
          empty_page_world_def set_update_def)
  have g_plain: "requests_get empty_page_world (folder_view_url ''FOLDER1'') = Inr (page_of [])"
    by (simp add: empty_page_world_def)
  have g_hint: "requests_get pdf_hint_world (folder_view_url ''FOLDER1'') = Inr (page_of [])"
    using folder_view_url_not_api [of "''FOLDER1''"]
    by (simp add: pdf_hint_world_def empty_page_world_def)
  have lr_plain: "last_resort empty_page_world ''FOLDER1'' = [Http_get (api_url ''FOLDER1'')]"
    by (simp add: last_resort_def empty_page_world_def page_of_def no_matches_def)
  have lr_hint: "last_resort pdf_hint_world ''FOLDER1''
                 = [Http_get (api_url ''FOLDER1''), Pdf_warning]"
    by (simp add: last_resort_def pdf_hint_world_def empty_page_world_def page_of_def)
  have text_empty: "r_text (page_of []) = []" "status_code (page_of []) = 200"
    by (simp_all add: page_of_def)
  have plain: "list_folder_files_public empty_page_world ''FOLDER1'' None
        = (Inr [], [Http_get (folder_view_url ''FOLDER1''), Http_get (api_url ''FOLDER1'')])"
    by (simp add: list_folder_files_public_def id Let_def g_plain text_empty ex_plain lr_plain)
  have hint: "snd (list_folder_files_public pdf_hint_world ''FOLDER1'' None)
        = [Http_get (folder_view_url ''FOLDER1''), Http_get (api_url ''FOLDER1''), Pdf_warning]"
    by (simp add: list_folder_files_public_def id Let_def g_hint text_empty ex_hint lr_hint)
  have "fst (list_folder_files_public pdf_hint_world ''FOLDER1'' None)
        = fst (list_folder_files_public empty_page_world ''FOLDER1'' None)"
    using last_resort_adds_nothing
            [of empty_page_world pdf_hint_world "''FOLDER1''" None, THEN conjunct1] same
    by simp
  then show ?thesis
    using plain hint by simp
qed

subsection \<open>C10: an empty type filter filters nothing\<close>

text \<open>
  C10. With the empty list as the type filter, the authenticated listings keep every
  item: the flat listing (reached when the public listing has raised and there is a
  session) returns a record for every item of the query, folders included, and the
  recursive listing is the one without a filter, which for a folder without subfolders
  returns a record for every item.
\<close>

theorem empty_filter_keeps_everything:
  "matches_filter (Some []) mime
   \<and> (fst (list_folder_files_public w folder_url (Some [])) = Inl public_error
      \<and> service h = Some svc
      \<and> files_list svc (parents_query (extract_folder_id folder_url)) = Inr items
     \<longrightarrow> fst (list_folder_files w h folder_url (Some [])) = Inr (map api_record items))
   \<and> list_folder_recursive depth h folder_url (Some [])
      = list_folder_recursive depth h folder_url None
   \<and> (service h = Some svc
      \<and> files_list svc (parents_query (extract_folder_id folder_url)) = Inr items
      \<and> (\<forall>it\<in>set items. item_mimeType it \<noteq> folder_mime)
     \<longrightarrow> (\<exists>trace. list_folder_recursive (Suc depth) h folder_url (Some [])
                    = Some (Inr (map (tree_record []) items), trace)))"
proof (intro conjI impI)
  show "matches_filter (Some []) mime"
    by (simp add: matches_filter_def)
next
  assume a: "fst (list_folder_files_public w folder_url (Some [])) = Inl public_error
      \<and> service h = Some svc
      \<and> files_list svc (parents_query (extract_folder_id folder_url)) = Inr items"
  then obtain trace where
    "list_folder_files_public w folder_url (Some []) = (Inl public_error, trace)"
    by (cases "list_folder_files_public w folder_url (Some [])") auto
  then show "fst (list_folder_files w h folder_url (Some [])) = Inr (map api_record items)"
    using a by (simp add: list_folder_files_def Let_def matches_filter_def)
next
  show "list_folder_recursive depth h folder_url (Some [])
        = list_folder_recursive depth h folder_url None"
    unfolding list_folder_recursive_def recurse_folder_no_filter by (rule refl)
next
  assume a: "service h = Some svc
      \<and> files_list svc (parents_query (extract_folder_id folder_url)) = Inr items
      \<and> (\<forall>it\<in>set items. item_mimeType it \<noteq> folder_mime)"
  then have "recurse_folder (Suc depth) svc (Some []) (extract_folder_id folder_url) []
               ([], [])
             = Some (map (tree_record []) items,
                     [Files_list (parents_query (extract_folder_id folder_url))])"
    by (simp add: recurse_items_files_only matches_filter_def)
  then show "\<exists>trace. list_folder_recursive (Suc depth) h folder_url (Some [])
                    = Some (Inr (map (tree_record []) items), trace)"
    using a by (simp add: list_folder_recursive_def)
qed

theorem empty_filter_keeps_everything_witness:
  "fst (list_folder_files offline_world tree_handler ''mixed'' (Some []))
     = Inr [api_record folder_y, api_record item_a]
   \<and> fr_mimeType (api_record folder_y) = folder_mime
   \<and> (\<exists>trace. list_folder_recursive 1 two_files_handler ''root'' (Some [])
                = Some (Inr [tree_record [] item_a, tree_record [] item_b], trace))"
proof -
  have id: "extract_folder_id ''mixed'' = ''mixed''" "extract_folder_id ''root'' = ''root''"
    by (simp_all add: extract_folder_id_def)
  have pub: "fst (list_folder_files_public offline_world ''mixed'' (Some []))
             = Inl (public_failure (Exception ''timed out''))"
    by (simp add: list_folder_files_public_def offline_world_def Let_def)
  have flat: "fst (list_folder_files_public offline_world ''mixed'' (Some []))
                = Inl (public_failure (Exception ''timed out''))
              \<and> service tree_handler = Some tree_service
              \<and> files_list tree_service (parents_query (extract_folder_id ''mixed''))
                  = Inr [folder_y, item_a]"
    using pub by (simp add: tree_handler_def tree_service_def id parents_query_def)
  have tree: "service two_files_handler = Some two_files_service
              \<and> files_list two_files_service (parents_query (extract_folder_id ''root''))
                  = Inr [item_a, item_b]
              \<and> (\<forall>it\<in>set [item_a, item_b]. item_mimeType it \<noteq> folder_mime)"
    by (simp add: two_files_handler_def two_files_service_def id item_a_def item_b_def
          folder_mime_def)
  note t = empty_filter_keeps_everything
             [of _ offline_world "''mixed''" _ tree_handler tree_service "[folder_y, item_a]",
              THEN conjunct2, THEN conjunct1, rule_format, OF flat]
           empty_filter_keeps_everything
             [of _ _ "''root''" _ two_files_handler two_files_service "[item_a, item_b]" 0,
              THEN conjunct2, THEN conjunct2, THEN conjunct2, rule_format, OF tree]
  show ?thesis
    using t by (simp add: api_record_def folder_y_def)
qed


end
